theory Spec2Isabelle
  imports Complex_Main
begin

section \<open>The VexFlow formatter (\<^verbatim>\<open>src/formatter.js\<close>)\<close>

text \<open>
  The formatter groups the tickables of one or more voices into a grid of integer
  ticks, computes the minimum width of the grid and distributes left-over width in
  proportion to the ticks. The classes it imports (\<^verbatim>\<open>Fraction\<close>,
  \<^verbatim>\<open>Voice\<close>, \<^verbatim>\<open>TickContext\<close>, \<^verbatim>\<open>ModifierContext\<close>,
  \<^verbatim>\<open>StaveNote\<close>, \<^verbatim>\<open>Vex\<close>) are not part of the source file; of each
  only the members the formatter calls are modelled, from the specification.
\<close>

subsection \<open>Errors and numbers\<close>

text \<open>
  The error kinds of \<^verbatim>\<open>Vex.RERR\<close> raised by the formatter, and the
  \<^verbatim>\<open>TypeError\<close> JavaScript raises when a member of \<^verbatim>\<open>undefined\<close> or
  \<^verbatim>\<open>null\<close> is read.
\<close>

datatype error = BadArgument | TickMismatch | IncompleteVoice | NoMinTotalWidth | TypeError

text \<open>
  JavaScript numbers. Widths and positions are exact reals here (rounding is not
  modelled). The one place where the formatter can leave the reals is the division of
  pass 2: a division by zero gives \<^verbatim>\<open>Infinity\<close>, \<^verbatim>\<open>-Infinity\<close> or
  \<^verbatim>\<open>NaN\<close>. \<open>NonFinite\<close> stands for any of these three; sums, differences
  and products with a non-finite operand are non-finite again.
\<close>

datatype jsnum = Number real | NonFinite

fun js_plus :: "jsnum \<Rightarrow> jsnum \<Rightarrow> jsnum" where
  "js_plus (Number a) (Number b) = Number (a + b)"
| "js_plus _ _ = NonFinite"

fun js_minus :: "jsnum \<Rightarrow> jsnum \<Rightarrow> jsnum" where
  "js_minus (Number a) (Number b) = Number (a - b)"
| "js_minus _ _ = NonFinite"

fun js_times :: "jsnum \<Rightarrow> jsnum \<Rightarrow> jsnum" where
  "js_times (Number a) (Number b) = Number (a * b)"
| "js_times _ _ = NonFinite"

text \<open>The quotient of two finite numbers: non-finite exactly when the divisor is zero.\<close>

definition js_divide :: "real \<Rightarrow> real \<Rightarrow> jsnum" where
  "js_divide a b = (if b = 0 then NonFinite else Number (a / b))"

subsection \<open>Fractions\<close>

text \<open>
  Modelled from the spec: \<^verbatim>\<open>Fraction\<close> (\<^verbatim>\<open>./fraction\<close>) is not in the source.
  It is the exact rational utility of the specification: a numerator and a
  denominator, with addition, comparison, least common multiple and decimal value.
  A sum is brought to the least common denominator and is not reduced, so a running
  total that starts with the resolution multiplier as denominator keeps it as long as
  the denominators of the durations divide it. A denominator is never zero.
\<close>

record fraction =
  numerator :: int
  denominator :: int

definition Fraction :: "int \<Rightarrow> int \<Rightarrow> fraction" where
  "Fraction n d = \<lparr>numerator = n, denominator = d\<rparr>"

definition Fraction_LCM :: "nat \<Rightarrow> nat \<Rightarrow> nat" where
  "Fraction_LCM a b = lcm a b"

definition fraction_add :: "fraction \<Rightarrow> fraction \<Rightarrow> fraction" where
  "fraction_add a b =
     (let l = lcm (denominator a) (denominator b)
      in Fraction (numerator a * (l div denominator a) + numerator b * (l div denominator b)) l)"

definition fraction_equals :: "fraction \<Rightarrow> fraction \<Rightarrow> bool" where
  "fraction_equals a b \<longleftrightarrow> numerator a * denominator b = numerator b * denominator a"

definition fraction_value :: "fraction \<Rightarrow> real" where
  "fraction_value a = real_of_int (numerator a) / real_of_int (denominator a)"

subsection \<open>Tickables and voices\<close>

text \<open>
  Modelled from the spec: the notes (\<^verbatim>\<open>StaveNote\<close> and the other tickables) are not
  in the source. A tickable is the record of what the formatter asks of it: its duration
  \<^verbatim>\<open>getTicks()\<close>, the width and the left and extra-left padding it reports once
  its layout is final, whether it is center aligned and the shift it was given, and for
  rest alignment \<^verbatim>\<open>instanceof StaveNote\<close>, \<^verbatim>\<open>isRest()\<close>,
  \<^verbatim>\<open>shouldIgnoreTicks()\<close>, whether \<^verbatim>\<open>tuplet\<close> and \<^verbatim>\<open>beam\<close> are set,
  \<^verbatim>\<open>getGlyph().position\<close>, the line of each entry of \<^verbatim>\<open>getKeyProps()\<close>
  and \<^verbatim>\<open>getLineForRest()\<close>.
\<close>

record tickable =
  ticks :: fraction
  noteWidth :: real
  leftPx :: real
  extraLeftPx :: real
  centerAligned :: bool
  center_x_shift :: jsnum
  isStaveNote :: bool
  isRest :: bool
  shouldIgnoreTicks :: bool
  tuplet :: bool
  beam :: bool
  glyphPosition :: string
  keyProps :: "real list"
  lineForRest :: real

text \<open>
  Modelled from the spec: \<^verbatim>\<open>Voice\<close> is not in the source. A voice exposes its
  tickables in order, its total ticks, the ticks used so far, its resolution multiplier
  (a denominator), its mode and its completeness check.
\<close>

datatype voice_mode = STRICT | SOFT

record voice =
  v_totalTicks :: fraction
  v_ticksUsed :: fraction
  v_resolutionMultiplier :: nat
  v_mode :: voice_mode
  v_isComplete :: bool
  v_tickables :: "tickable list"

subsection \<open>Grid construction: \<^verbatim>\<open>createContexts\<close>\<close>

text \<open>
  Modelled from the spec: \<^verbatim>\<open>Vex.SortAndUnique\<close> is not in the source; it sorts
  the raw tick list ascending and removes duplicates.
\<close>

definition SortAndUnique :: "int list \<Rightarrow> int list" where
  "SortAndUnique xs = remdups_adj (sort xs)"

text \<open>
  The three locals of \<^verbatim>\<open>createContexts\<close>. The contexts are objects shared by
  \<^verbatim>\<open>contexts\<close> and \<^verbatim>\<open>tickToContextMap\<close>: \<open>g_contexts\<close> is the array
  (and the store), and the map takes a tick to the index of its context in the array.
\<close>

record 'c grid =
  g_map :: "int \<rightharpoonup> nat"
  g_contexts :: "'c list"
  g_tickList :: "int list"

text \<open>
  The value \<^verbatim>\<open>createContexts\<close> returns: \<^verbatim>\<open>map\<close>, \<^verbatim>\<open>array\<close>,
  \<^verbatim>\<open>list\<close> and \<^verbatim>\<open>resolutionMultiplier\<close>.
\<close>

record 'c contexts =
  ctx_map :: "int \<rightharpoonup> nat"
  ctx_array :: "'c list"
  ctx_list :: "int list"
  resolutionMultiplier :: nat

text \<open>
  The \<^verbatim>\<open>reduce\<close> of lines 75 to 92: each voice is checked in turn, first its
  total ticks against the first voice's (line 76, \<open>mismatched\<close>), then its completeness
  (line 82, \<open>incomplete\<close>), and the accumulator becomes
  \<^verbatim>\<open>Math.max(acc, Fraction.LCM(acc, voice.getResolutionMultiplier()))\<close>.
\<close>

definition mismatched :: "fraction \<Rightarrow> voice \<Rightarrow> bool" where
  "mismatched totalTicks v \<longleftrightarrow> \<not> fraction_equals (v_totalTicks v) totalTicks"

definition incomplete :: "voice \<Rightarrow> bool" where
  "incomplete v \<longleftrightarrow> v_mode v = STRICT \<and> \<not> v_isComplete v"

fun reduce_resolution :: "fraction \<Rightarrow> voice list \<Rightarrow> nat \<Rightarrow> error + nat" where
  "reduce_resolution totalTicks [] acc = Inr acc"
| "reduce_resolution totalTicks (v # vs) acc =
     (if mismatched totalTicks v then Inl TickMismatch
      else if incomplete v then Inl IncompleteVoice
      else reduce_resolution totalTicks vs
             (max acc (Fraction_LCM acc (v_resolutionMultiplier v))))"

text \<open>
  Lines 111 to 115: the context of a tick, created and registered when the map has
  none for it. The result is the index of the context and the updated locals.
\<close>

definition context_at :: "'c \<Rightarrow> int \<Rightarrow> 'c grid \<Rightarrow> nat \<times> 'c grid" where
  "context_at newContext integerTicks g =
     (case g_map g integerTicks of
        Some k \<Rightarrow> (k, g)
      | None \<Rightarrow>
          (length (g_contexts g),
           g\<lparr>g_contexts := g_contexts g @ [newContext],
             g_map := (g_map g)(integerTicks \<mapsto> length (g_contexts g))\<rparr>))"

text \<open>
  The inner \<^verbatim>\<open>forEach\<close> (lines 107 to 123) over the tickables of one voice, with
  the running \<^verbatim>\<open>ticksUsed\<close>.
\<close>

fun add_tickables ::
  "'c \<Rightarrow> (tickable \<Rightarrow> 'c \<Rightarrow> 'c) \<Rightarrow> tickable list \<Rightarrow> fraction \<Rightarrow> 'c grid \<Rightarrow> 'c grid" where
  "add_tickables newContext addToContext [] ticksUsed g = g"
| "add_tickables newContext addToContext (tickable # rest) ticksUsed g =
     (let integerTicks = numerator ticksUsed;
          (k, g1) = context_at newContext integerTicks g;
          g2 = g1\<lparr>g_contexts := (g_contexts g1)[k := addToContext tickable (g_contexts g1 ! k)],
                 g_tickList := g_tickList g1 @ [integerTicks]\<rparr>
      in add_tickables newContext addToContext rest (fraction_add ticksUsed (ticks tickable)) g2)"

text \<open>The outer \<^verbatim>\<open>forEach\<close> (lines 101 to 124) over the voices.\<close>

fun add_voices ::
  "'c \<Rightarrow> (tickable \<Rightarrow> 'c \<Rightarrow> 'c) \<Rightarrow> nat \<Rightarrow> voice list \<Rightarrow> 'c grid \<Rightarrow> 'c grid" where
  "add_voices newContext addToContext rm [] g = g"
| "add_voices newContext addToContext rm (v # vs) g =
     add_voices newContext addToContext rm vs
       (add_tickables newContext addToContext (v_tickables v) (Fraction 0 (int rm)) g)"

text \<open>
  \<^verbatim>\<open>createContexts(voices, ContextType, addToContext)\<close>. A missing
  \<^verbatim>\<open>voices\<close> argument is \<open>None\<close>. \<^verbatim>\<open>new ContextType()\<close> is the
  argument \<open>newContext\<close>.
\<close>

definition createContexts ::
  "voice list option \<Rightarrow> 'c \<Rightarrow> (tickable \<Rightarrow> 'c \<Rightarrow> 'c) \<Rightarrow> error + 'c contexts" where
  "createContexts voices newContext addToContext =
     (case voices of
        None \<Rightarrow> Inl BadArgument
      | Some [] \<Rightarrow> Inl BadArgument
      | Some (v0 # vs) \<Rightarrow>
          (case reduce_resolution (v_totalTicks v0) (v0 # vs) 1 of
             Inl e \<Rightarrow> Inl e
           | Inr rm \<Rightarrow>
               (let g = add_voices newContext addToContext rm (v0 # vs)
                          \<lparr>g_map = Map.empty, g_contexts = [], g_tickList = []\<rparr>
                in Inr \<lparr>ctx_map = g_map g, ctx_array = g_contexts g,
                        ctx_list = SortAndUnique (g_tickList g),
                        resolutionMultiplier = rm\<rparr>)))"

subsection \<open>Rest alignment: \<^verbatim>\<open>lookAhead\<close> and \<^verbatim>\<open>AlignRestsToNotes\<close>\<close>

text \<open>
  A \<^verbatim>\<open>forEach\<close> whose body may throw: the loop stops at the first error, and the
  state it has reached stays as it is (the objects were mutated in place).
\<close>

fun forEach :: "('a \<Rightarrow> 's \<Rightarrow> error option \<times> 's) \<Rightarrow> 'a list \<Rightarrow> 's \<Rightarrow> error option \<times> 's" where
  "forEach body [] s = (None, s)"
| "forEach body (a # as) s =
     (case body a s of
        (Some e, s') \<Rightarrow> (Some e, s')
      | (None, s') \<Rightarrow> forEach body as s')"

text \<open>
  The loop of \<^verbatim>\<open>lookAhead\<close> (lines 39 to 45) over the notes after index
  \<^verbatim>\<open>i\<close>: the rest line of the first note that is neither a rest nor ignored,
  or the current rest line when there is none.
\<close>

fun nextRestLine_loop :: "tickable list \<Rightarrow> real \<Rightarrow> real" where
  "nextRestLine_loop [] restLine = restLine"
| "nextRestLine_loop (n # ns) restLine =
     (if \<not> isRest n \<and> \<not> shouldIgnoreTicks n then lineForRest n
      else nextRestLine_loop ns restLine)"

text \<open>
  \<^verbatim>\<open>lookAhead(notes, restLine, i, compare)\<close>. \<^verbatim>\<open>Vex.MidLine\<close> is not in
  the source and is the parameter \<open>MidLine\<close>.
\<close>

definition lookAhead ::
  "(real \<Rightarrow> real \<Rightarrow> real) \<Rightarrow> tickable list \<Rightarrow> real \<Rightarrow> nat \<Rightarrow> bool \<Rightarrow> real" where
  "lookAhead MidLine notes restLine i compare =
     (let nextRestLine = nextRestLine_loop (drop (i + 1) notes) restLine
      in if compare \<and> restLine \<noteq> nextRestLine
         then MidLine (max restLine nextRestLine) (min restLine nextRestLine)
         else nextRestLine)"

text \<open>
  \<^verbatim>\<open>String.prototype.toUpperCase\<close> on the ASCII letters, which is all a glyph
  position code holds.
\<close>

definition char_toUpperCase :: "char \<Rightarrow> char" where
  "char_toUpperCase c =
     (if 97 \<le> (of_char c :: nat) \<and> (of_char c :: nat) \<le> 122
      then char_of ((of_char c :: nat) - 32) else c)"

definition toUpperCase :: "string \<Rightarrow> string" where
  "toUpperCase s = map char_toUpperCase s"

text \<open>
  Modelled from the spec: \<^verbatim>\<open>setKeyLine(0, line)\<close> of \<^verbatim>\<open>StaveNote\<close> stores the
  line of the first key.
\<close>

definition setKeyLine0 :: "tickable \<Rightarrow> real \<Rightarrow> tickable" where
  "setKeyLine0 n line = n\<lparr>keyProps := (keyProps n)[0 := line]\<rparr>"

text \<open>
  The body of the \<^verbatim>\<open>forEach\<close> of \<^verbatim>\<open>AlignRestsToNotes\<close> (lines 258 to 285)
  at one index. \<^verbatim>\<open>getKeyProps()[0]\<close> of a note without key properties is
  \<^verbatim>\<open>undefined\<close>, and reading or writing its \<^verbatim>\<open>line\<close> throws.
\<close>

definition alignRest ::
  "(real \<Rightarrow> real \<Rightarrow> real) \<Rightarrow> bool \<Rightarrow> bool \<Rightarrow> nat \<Rightarrow> tickable list
     \<Rightarrow> error option \<times> tickable list" where
  "alignRest MidLine alignAllNotes alignTuplets index notes =
     (let n = notes ! index in
      if isStaveNote n \<and> isRest n then
        if tuplet n \<and> \<not> alignTuplets then (None, notes)
        else
          let position = toUpperCase (glyphPosition n) in
          if position \<noteq> ''R/4'' \<and> position \<noteq> ''B/4'' then (None, notes)
          else if alignAllNotes \<or> beam n then
            (case keyProps n of
               [] \<Rightarrow> (Some TypeError, notes)
             | line # _ \<Rightarrow>
                 if index = 0 then
                   (None, notes[index := setKeyLine0 n (lookAhead MidLine notes line index False)])
                 else if isRest (notes ! (index - 1)) then
                   (case keyProps (notes ! (index - 1)) of
                      [] \<Rightarrow> (Some TypeError, notes)
                    | restLine # _ \<Rightarrow> (None, notes[index := setKeyLine0 n restLine]))
                 else
                   (None, notes[index := setKeyLine0 n
                      (lookAhead MidLine notes (lineForRest (notes ! (index - 1))) index True)]))
          else (None, notes)
      else (None, notes))"

text \<open>
  \<^verbatim>\<open>Formatter.AlignRestsToNotes(notes, alignAllNotes, alignTuplets)\<close>: the notes
  are visited by ascending index and changed in place.
\<close>

definition AlignRestsToNotes ::
  "(real \<Rightarrow> real \<Rightarrow> real) \<Rightarrow> tickable list \<Rightarrow> bool \<Rightarrow> bool
     \<Rightarrow> error option \<times> tickable list" where
  "AlignRestsToNotes MidLine notes alignAllNotes alignTuplets =
     forEach (alignRest MidLine alignAllNotes alignTuplets) [0..<length notes] notes"

subsection \<open>Tick contexts and modifier contexts\<close>

text \<open>
  Modelled from the spec: \<^verbatim>\<open>TickContext\<close> is not in the source. A tick context
  holds its member tickables in insertion order, its assigned position, whether its
  layout is final, whether it was post-formatted, and the rendering handle attached to
  it. Its width and its left and extra-left padding are the maxima over its members.
\<close>

record tick_context =
  tc_tickables :: "tickable list"
  tc_x :: jsnum
  tc_preFormatted :: bool
  tc_postFormatted :: bool
  tc_context :: "nat option"

definition TickContext :: tick_context where
  "TickContext = \<lparr>tc_tickables = [], tc_x = Number 0, tc_preFormatted = False,
                   tc_postFormatted = False, tc_context = None\<rparr>"

definition addTickable :: "tickable \<Rightarrow> tick_context \<Rightarrow> tick_context" where
  "addTickable t c = c\<lparr>tc_tickables := tc_tickables c @ [t]\<rparr>"

definition tc_preFormat :: "tick_context \<Rightarrow> tick_context" where
  "tc_preFormat c = c\<lparr>tc_preFormatted := True\<rparr>"

definition tc_postFormat :: "tick_context \<Rightarrow> tick_context" where
  "tc_postFormat c = c\<lparr>tc_postFormatted := True\<rparr>"

definition tc_getWidth :: "tick_context \<Rightarrow> real" where
  "tc_getWidth c = foldl max 0 (map noteWidth (tc_tickables c))"

definition tc_left :: "tick_context \<Rightarrow> real" where
  "tc_left c = foldl max 0 (map leftPx (tc_tickables c))"

definition tc_extraLeft :: "tick_context \<Rightarrow> real" where
  "tc_extraLeft c = foldl max 0 (map extraLeftPx (tc_tickables c))"

definition tc_setX :: "tick_context \<Rightarrow> jsnum \<Rightarrow> tick_context" where
  "tc_setX c x = c\<lparr>tc_x := x\<rparr>"

definition tc_setContext :: "tick_context \<Rightarrow> nat option \<Rightarrow> tick_context" where
  "tc_setContext c rc = c\<lparr>tc_context := rc\<rparr>"

text \<open>
  Lines 454 to 458: every center aligned member of the context gets
  \<^verbatim>\<open>centerX - context.getX()\<close> as its shift.
\<close>

definition centerTickables :: "real \<Rightarrow> tick_context \<Rightarrow> tick_context" where
  "centerTickables centerX c =
     c\<lparr>tc_tickables :=
         map (\<lambda>t. if centerAligned t
                   then t\<lparr>center_x_shift := js_minus (Number centerX) (tc_x c)\<rparr> else t)
             (tc_tickables c)\<rparr>"

text \<open>
  Modelled from the spec: \<^verbatim>\<open>ModifierContext\<close> is not in the source. It groups
  the tickables of one tick; \<^verbatim>\<open>tickable.addToModifierContext(context)\<close> adds the
  tickable to it.
\<close>

record modifier_context =
  mc_tickables :: "tickable list"
  mc_postFormatted :: bool

definition ModifierContext :: modifier_context where
  "ModifierContext = \<lparr>mc_tickables = [], mc_postFormatted = False\<rparr>"

definition addToModifierContext :: "tickable \<Rightarrow> modifier_context \<Rightarrow> modifier_context" where
  "addToModifierContext t c = c\<lparr>mc_tickables := mc_tickables c @ [t]\<rparr>"

definition mc_postFormat :: "modifier_context \<Rightarrow> modifier_context" where
  "mc_postFormat c = c\<lparr>mc_postFormatted := True\<rparr>"

subsection \<open>The formatter\<close>

text \<open>
  The fields the constructor sets (lines 291 to 304); \<^verbatim>\<open>modiferContexts\<close> is the
  spelling of the source. \<open>None\<close> is \<^verbatim>\<open>null\<close>.
\<close>

record formatter =
  minTotalWidth :: real
  hasMinTotalWidth :: bool
  totalTicks :: fraction
  tickContexts :: "tick_context contexts option"
  modiferContexts :: "modifier_context contexts option"

definition Formatter :: formatter where
  "Formatter = \<lparr>minTotalWidth = 0, hasMinTotalWidth = False, totalTicks = Fraction 0 1,
                 tickContexts = None, modiferContexts = None\<rparr>"

text \<open>
  \<^verbatim>\<open>contextMap[tick]\<close>: the index of the context registered for the tick, or
  \<open>None\<close> for \<^verbatim>\<open>undefined\<close>.
\<close>

definition lookup_context :: "(int \<rightharpoonup> nat) \<Rightarrow> 'c list \<Rightarrow> int \<Rightarrow> nat option" where
  "lookup_context m arr tick =
     (case m tick of None \<Rightarrow> None | Some k \<Rightarrow> if k < length arr then Some k else None)"

text \<open>\<^verbatim>\<open>createModifierContexts(voices)\<close> (lines 364 to 373).\<close>

definition createModifierContexts ::
  "formatter \<Rightarrow> voice list option \<Rightarrow> (error + modifier_context contexts) \<times> formatter" where
  "createModifierContexts f voices =
     (case createContexts voices ModifierContext addToModifierContext of
        Inl e \<Rightarrow> (Inl e, f)
      | Inr contexts \<Rightarrow> (Inr contexts, f\<lparr>modiferContexts := Some contexts\<rparr>))"

text \<open>
  \<^verbatim>\<open>createTickContexts(voices)\<close> (lines 377 to 391). The back reference
  \<^verbatim>\<open>context.tContexts\<close> that each context gets to the array is not modelled.
  \<^verbatim>\<open>voices[0]\<close> exists once \<^verbatim>\<open>createContexts\<close> has returned.
\<close>

definition createTickContexts ::
  "formatter \<Rightarrow> voice list option \<Rightarrow> (error + tick_context contexts) \<times> formatter" where
  "createTickContexts f voices =
     (case createContexts voices TickContext addTickable of
        Inl e \<Rightarrow> (Inl e, f)
      | Inr contexts \<Rightarrow>
          (case voices of
             Some (v0 # _) \<Rightarrow>
               (Inr contexts, f\<lparr>totalTicks := v_ticksUsed v0, tickContexts := Some contexts\<rparr>)
           | _ \<Rightarrow> (Inl TypeError, f)))"

text \<open>
  The \<^verbatim>\<open>map\<close> of lines 337 to 342: each context of the tick list is pre-formatted
  and reports its width.
\<close>

fun preFormat_widths ::
  "(int \<rightharpoonup> nat) \<Rightarrow> int list \<Rightarrow> tick_context list
     \<Rightarrow> (error + real list) \<times> tick_context list" where
  "preFormat_widths m [] arr = (Inr [], arr)"
| "preFormat_widths m (tick # rest) arr =
     (case lookup_context m arr tick of
        None \<Rightarrow> (Inl TypeError, arr)
      | Some k \<Rightarrow>
          (let context = tc_preFormat (arr ! k)
           in case preFormat_widths m rest (arr[k := context]) of
                (Inl e, arr') \<Rightarrow> (Inl e, arr')
              | (Inr ws, arr') \<Rightarrow> (Inr (tc_getWidth context # ws), arr')))"

text \<open>\<^verbatim>\<open>preCalculateMinTotalWidth(voices)\<close> (lines 319 to 348).\<close>

definition preCalculateMinTotalWidth ::
  "formatter \<Rightarrow> voice list option \<Rightarrow> (error + real) \<times> formatter" where
  "preCalculateMinTotalWidth f voices =
     (if hasMinTotalWidth f then (Inr (minTotalWidth f), f)
      else
        (case (case tickContexts f of
                 Some contexts \<Rightarrow> (Inr contexts, f)
               | None \<Rightarrow>
                   if voices = None then (Inl BadArgument, f)
                   else createTickContexts f voices) of
           (Inl e, f1) \<Rightarrow> (Inl e, f1)
         | (Inr contexts, f1) \<Rightarrow>
             (case preFormat_widths (ctx_map contexts) (ctx_list contexts) (ctx_array contexts) of
                (Inl e, arr) \<Rightarrow> (Inl e, f1\<lparr>tickContexts := Some (contexts\<lparr>ctx_array := arr\<rparr>)\<rparr>)
              | (Inr ws, arr) \<Rightarrow>
                  (Inr (foldl (+) 0 ws),
                   f1\<lparr>tickContexts := Some (contexts\<lparr>ctx_array := arr\<rparr>),
                      minTotalWidth := foldl (+) 0 ws,
                      hasMinTotalWidth := True\<rparr>))))"

text \<open>\<^verbatim>\<open>getMinTotalWidth()\<close> (lines 352 to 361).\<close>

definition getMinTotalWidth :: "formatter \<Rightarrow> (error + real) \<times> formatter" where
  "getMinTotalWidth f =
     (if \<not> hasMinTotalWidth f then (Inl NoMinTotalWidth, f) else (Inr (minTotalWidth f), f))"

text \<open>
  The body of pass 1 (lines 416 to 433) for one tick. The state is \<^verbatim>\<open>x\<close>,
  \<^verbatim>\<open>shift\<close>, \<^verbatim>\<open>this.minTotalWidth\<close> and the contexts.
\<close>

definition pass1_step ::
  "nat option \<Rightarrow> (int \<rightharpoonup> nat) \<Rightarrow> int \<Rightarrow> real \<times> real \<times> real \<times> tick_context list
     \<Rightarrow> error option \<times> real \<times> real \<times> real \<times> tick_context list" where
  "pass1_step renderingContext m tick s =
     (case s of (x, shift, mtw, arr) \<Rightarrow>
        (case lookup_context m arr tick of
           None \<Rightarrow> (Some TypeError, s)
         | Some k \<Rightarrow>
             (let context = arr ! k;
                  context = (if renderingContext \<noteq> None
                             then tc_setContext context renderingContext else context);
                  context = tc_preFormat context;
                  width = tc_getWidth context;
                  mtw = mtw + width;
                  x = x + shift + tc_left context + tc_extraLeft context;
                  context = tc_setX context (Number x);
                  shift = tc_getWidth context - (tc_left context + tc_extraLeft context)
              in (None, (x, shift, mtw, arr[k := context])))))"

text \<open>
  Lines 399 to 436 of \<^verbatim>\<open>preFormat\<close>: pass 1 and the minimum total width. The
  arguments \<^verbatim>\<open>voices\<close> and \<^verbatim>\<open>stave\<close> only make each voice pre-format its
  own vertical positions and are not modelled.
\<close>

definition preFormat_pass1 :: "formatter \<Rightarrow> nat option \<Rightarrow> error option \<times> formatter" where
  "preFormat_pass1 f renderingContext =
     (case tickContexts f of
        None \<Rightarrow> (Some TypeError, f)
      | Some contexts \<Rightarrow>
          (case forEach (pass1_step renderingContext (ctx_map contexts)) (ctx_list contexts)
                  (0, 0, 0, ctx_array contexts) of
             (Some e, (x, shift, mtw, arr)) \<Rightarrow>
               (Some e, f\<lparr>minTotalWidth := mtw,
                          tickContexts := Some (contexts\<lparr>ctx_array := arr\<rparr>)\<rparr>)
           | (None, (x, shift, mtw, arr)) \<Rightarrow>
               (None, f\<lparr>minTotalWidth := x + shift, hasMinTotalWidth := True,
                        tickContexts := Some (contexts\<lparr>ctx_array := arr\<rparr>)\<rparr>)))"

text \<open>Line 448: \<^verbatim>\<open>(tick - prevTick) * leftoverPxPerTick\<close>.\<close>

definition tickSpace :: "jsnum \<Rightarrow> int \<Rightarrow> int \<Rightarrow> jsnum" where
  "tickSpace leftoverPxPerTick prevTick tick =
     js_times (Number (real_of_int (tick - prevTick))) leftoverPxPerTick"

text \<open>
  The body of pass 2 (lines 445 to 459) for one tick and the tick before it
  (\<^verbatim>\<open>contextList[index - 1] || 0\<close>). The state is \<^verbatim>\<open>spaceAccum\<close> and the
  contexts.
\<close>

definition pass2_step ::
  "(int \<rightharpoonup> nat) \<Rightarrow> jsnum \<Rightarrow> real \<Rightarrow> int \<times> int \<Rightarrow> jsnum \<times> tick_context list
     \<Rightarrow> error option \<times> jsnum \<times> tick_context list" where
  "pass2_step m leftoverPxPerTick centerX pt s =
     (case pt of (prevTick, tick) \<Rightarrow>
      case s of (spaceAccum, arr) \<Rightarrow>
        (let spaceAccum = js_plus spaceAccum (tickSpace leftoverPxPerTick prevTick tick)
         in case lookup_context m arr tick of
              None \<Rightarrow> (Some TypeError, (spaceAccum, arr))
            | Some k \<Rightarrow>
                (let context = tc_setX (arr ! k) (js_plus (tc_x (arr ! k)) spaceAccum);
                     context = centerTickables centerX context
                 in (None, (spaceAccum, arr[k := context])))))"

text \<open>Line 441: the left-over width.\<close>

definition remainingX :: "formatter \<Rightarrow> real \<Rightarrow> real" where
  "remainingX f justifyWidth = justifyWidth - minTotalWidth f"

text \<open>Line 442: the left-over pixels per tick.\<close>

definition leftoverPxPerTick :: "formatter \<Rightarrow> nat \<Rightarrow> real \<Rightarrow> jsnum" where
  "leftoverPxPerTick f rm justifyWidth =
     js_divide (remainingX f justifyWidth) (fraction_value (totalTicks f) * real rm)"

text \<open>
  Lines 441 to 459 of \<^verbatim>\<open>preFormat\<close>: pass 2, on the formatter as pass 1 left it.
  The previous tick of the first tick is 0.
\<close>

definition preFormat_pass2 :: "formatter \<Rightarrow> real \<Rightarrow> error option \<times> formatter" where
  "preFormat_pass2 f justifyWidth =
     (case tickContexts f of
        None \<Rightarrow> (Some TypeError, f)
      | Some contexts \<Rightarrow>
          (case forEach
                  (pass2_step (ctx_map contexts)
                     (leftoverPxPerTick f (resolutionMultiplier contexts) justifyWidth)
                     (justifyWidth / 2))
                  (zip (0 # ctx_list contexts) (ctx_list contexts))
                  (Number 0, ctx_array contexts) of
             (e, (spaceAccum, arr)) \<Rightarrow>
               (e, f\<lparr>tickContexts := Some (contexts\<lparr>ctx_array := arr\<rparr>)\<rparr>)))"

text \<open>
  \<^verbatim>\<open>preFormat(justifyWidth, renderingContext, voices, stave)\<close> (lines 397 to 461):
  pass 1, then pass 2 when the justification width is positive.
\<close>

definition preFormat :: "formatter \<Rightarrow> real \<Rightarrow> nat option \<Rightarrow> error option \<times> formatter" where
  "preFormat f justifyWidth renderingContext =
     (case preFormat_pass1 f renderingContext of
        (Some e, f1) \<Rightarrow> (Some e, f1)
      | (None, f1) \<Rightarrow>
          if justifyWidth > 0 then preFormat_pass2 f1 justifyWidth else (None, f1))"

text \<open>
  \<^verbatim>\<open>postFormatContexts\<close> (lines 467 and 468) for one of the two context
  collections; \<open>post\<close> is the \<^verbatim>\<open>postFormat\<close> of its contexts.
\<close>

definition postFormatContexts ::
  "('c \<Rightarrow> 'c) \<Rightarrow> 'c contexts option \<Rightarrow> error option \<times> 'c contexts option" where
  "postFormatContexts post contexts =
     (case contexts of
        None \<Rightarrow> (Some TypeError, None)
      | Some c \<Rightarrow>
          (case forEach
                  (\<lambda>tick arr. case lookup_context (ctx_map c) arr tick of
                                 None \<Rightarrow> (Some TypeError, arr)
                               | Some k \<Rightarrow> (None, arr[k := post (arr ! k)]))
                  (ctx_list c) (ctx_array c) of
             (e, arr) \<Rightarrow> (e, Some (c\<lparr>ctx_array := arr\<rparr>))))"

text \<open>\<^verbatim>\<open>postFormat()\<close> (lines 466 to 474).\<close>

definition postFormat :: "formatter \<Rightarrow> error option \<times> formatter" where
  "postFormat f =
     (case postFormatContexts mc_postFormat (modiferContexts f) of
        (Some e, mc) \<Rightarrow> (Some e, f\<lparr>modiferContexts := mc\<rparr>)
      | (None, mc) \<Rightarrow>
          (case postFormatContexts tc_postFormat (tickContexts f) of
             (e, tc) \<Rightarrow> (e, f\<lparr>modiferContexts := mc, tickContexts := tc\<rparr>)))"

text \<open>\<^verbatim>\<open>joinVoices(voices)\<close> (lines 478 to 482).\<close>

definition joinVoices :: "formatter \<Rightarrow> voice list option \<Rightarrow> error option \<times> formatter" where
  "joinVoices f voices =
     (case createModifierContexts f voices of
        (Inl e, f1) \<Rightarrow> (Some e, f1)
      | (Inr _, f1) \<Rightarrow> (None, f1\<lparr>hasMinTotalWidth := False\<rparr>))"

text \<open>
  The \<^verbatim>\<open>forEach\<close> of \<^verbatim>\<open>alignRests\<close> (lines 314 and 315): the static
  \<^verbatim>\<open>AlignRestsToNotes\<close> is called with two arguments, so its
  \<^verbatim>\<open>alignTuplets\<close> is \<^verbatim>\<open>undefined\<close>, which is falsy.
\<close>

fun alignRests_loop ::
  "(real \<Rightarrow> real \<Rightarrow> real) \<Rightarrow> bool \<Rightarrow> voice list \<Rightarrow> error option \<times> voice list" where
  "alignRests_loop MidLine alignAllNotes [] = (None, [])"
| "alignRests_loop MidLine alignAllNotes (v # vs) =
     (case AlignRestsToNotes MidLine (v_tickables v) alignAllNotes False of
        (Some e, notes) \<Rightarrow> (Some e, v\<lparr>v_tickables := notes\<rparr> # vs)
      | (None, notes) \<Rightarrow>
          (case alignRests_loop MidLine alignAllNotes vs of
             (e, vs') \<Rightarrow> (e, v\<lparr>v_tickables := notes\<rparr> # vs')))"

text \<open>
  \<^verbatim>\<open>alignRests(voices, alignAllNotes)\<close> (lines 309 to 316). It changes the notes
  of the voices and nothing of the formatter; the result holds the voices as the call
  left them.
\<close>

definition alignRests ::
  "(real \<Rightarrow> real \<Rightarrow> real) \<Rightarrow> voice list option \<Rightarrow> bool \<Rightarrow> error option \<times> voice list option" where
  "alignRests MidLine voices alignAllNotes =
     (case voices of
        None \<Rightarrow> (Some BadArgument, None)
      | Some [] \<Rightarrow> (Some BadArgument, Some [])
      | Some (v # vs) \<Rightarrow>
          (case alignRests_loop MidLine alignAllNotes (v # vs) of
             (e, vs') \<Rightarrow> (e, Some vs')))"

text \<open>
  The options of \<^verbatim>\<open>format\<close> after \<^verbatim>\<open>Vex.Merge\<close> with the defaults
  \<^verbatim>\<open>{align_rests: false, context: null, stave: null}\<close>.
\<close>

record format_options =
  align_rests :: bool
  opt_context :: "nat option"
  opt_stave :: "nat option"

text \<open>
  Lines 500 to 502 of \<^verbatim>\<open>format\<close>: rest alignment, the tick contexts and
  \<^verbatim>\<open>preFormat\<close>.
\<close>

definition format_layout ::
  "(real \<Rightarrow> real \<Rightarrow> real) \<Rightarrow> formatter \<Rightarrow> voice list option \<Rightarrow> real \<Rightarrow> format_options
     \<Rightarrow> error option \<times> formatter \<times> voice list option" where
  "format_layout MidLine f voices justifyWidth opts =
     (case alignRests MidLine voices (align_rests opts) of
        (Some e, voices1) \<Rightarrow> (Some e, f, voices1)
      | (None, voices1) \<Rightarrow>
          (case createTickContexts f voices1 of
             (Inl e, f1) \<Rightarrow> (Some e, f1, voices1)
           | (Inr _, f1) \<Rightarrow>
               (case preFormat f1 justifyWidth (opt_context opts) of
                  (e, f2) \<Rightarrow> (e, f2, voices1))))"

text \<open>
  \<^verbatim>\<open>format(voices, justifyWidth, options)\<close> (lines 492 to 508). The static
  helpers (\<^verbatim>\<open>SimpleFormat\<close>, \<^verbatim>\<open>FormatAndDraw\<close>, \<^verbatim>\<open>FormatAndDrawTab\<close>) and
  \<^verbatim>\<open>formatToStave\<close> only compose the methods above with drawing and are not
  modelled.
\<close>

definition format ::
  "(real \<Rightarrow> real \<Rightarrow> real) \<Rightarrow> formatter \<Rightarrow> voice list option \<Rightarrow> real \<Rightarrow> format_options
     \<Rightarrow> error option \<times> formatter \<times> voice list option" where
  "format MidLine f voices justifyWidth opts =
     (case format_layout MidLine f voices justifyWidth opts of
        (Some e, f2, voices1) \<Rightarrow> (Some e, f2, voices1)
      | (None, f2, voices1) \<Rightarrow>
          if opt_stave opts \<noteq> None
          then (case postFormat f2 of (e, f3) \<Rightarrow> (e, f3, voices1))
          else (None, f2, voices1))"

subsection \<open>Sequences of calls on one formatter\<close>

text \<open>A call of one of the instance methods, with its arguments.\<close>

datatype call =
    Call_alignRests "voice list option" bool
  | Call_preCalculateMinTotalWidth "voice list option"
  | Call_getMinTotalWidth
  | Call_createModifierContexts "voice list option"
  | Call_createTickContexts "voice list option"
  | Call_preFormat real "nat option"
  | Call_postFormat
  | Call_joinVoices "voice list option"
  | Call_format "voice list option" real format_options

definition thrown :: "error + 'a \<Rightarrow> error option" where
  "thrown r = (case r of Inl e \<Rightarrow> Some e | Inr _ \<Rightarrow> None)"

text \<open>The error a call throws, if any, and the formatter after it.\<close>

definition exec :: "(real \<Rightarrow> real \<Rightarrow> real) \<Rightarrow> call \<Rightarrow> formatter \<Rightarrow> error option \<times> formatter" where
  "exec MidLine c f =
     (case c of
        Call_alignRests voices alignAllNotes \<Rightarrow> (fst (alignRests MidLine voices alignAllNotes), f)
      | Call_preCalculateMinTotalWidth voices \<Rightarrow>
          (case preCalculateMinTotalWidth f voices of (r, f1) \<Rightarrow> (thrown r, f1))
      | Call_getMinTotalWidth \<Rightarrow> (case getMinTotalWidth f of (r, f1) \<Rightarrow> (thrown r, f1))
      | Call_createModifierContexts voices \<Rightarrow>
          (case createModifierContexts f voices of (r, f1) \<Rightarrow> (thrown r, f1))
      | Call_createTickContexts voices \<Rightarrow>
          (case createTickContexts f voices of (r, f1) \<Rightarrow> (thrown r, f1))
      | Call_preFormat justifyWidth renderingContext \<Rightarrow> preFormat f justifyWidth renderingContext
      | Call_postFormat \<Rightarrow> postFormat f
      | Call_joinVoices voices \<Rightarrow> joinVoices f voices
      | Call_format voices justifyWidth opts \<Rightarrow>
          (case format MidLine f voices justifyWidth opts of (e, f1, _) \<Rightarrow> (e, f1)))"

text \<open>The formatter after a sequence of calls, each error caught by the caller.\<close>

fun run :: "(real \<Rightarrow> real \<Rightarrow> real) \<Rightarrow> call list \<Rightarrow> formatter \<Rightarrow> formatter" where
  "run MidLine [] f = f"
| "run MidLine (c # cs) f = run MidLine cs (snd (exec MidLine c f))"

text \<open>
  A width computation completes in the call: \<^verbatim>\<open>preCalculateMinTotalWidth\<close>
  returns, or \<^verbatim>\<open>preFormat\<close> returns, called directly or by \<^verbatim>\<open>format\<close>.
\<close>

definition computes_width :: "(real \<Rightarrow> real \<Rightarrow> real) \<Rightarrow> call \<Rightarrow> formatter \<Rightarrow> bool" where
  "computes_width MidLine c f =
     (case c of
        Call_preCalculateMinTotalWidth voices \<Rightarrow>
          thrown (fst (preCalculateMinTotalWidth f voices)) = None
      | Call_preFormat justifyWidth renderingContext \<Rightarrow>
          fst (preFormat f justifyWidth renderingContext) = None
      | Call_format voices justifyWidth opts \<Rightarrow>
          fst (format_layout MidLine f voices justifyWidth opts) = None
      | _ \<Rightarrow> False)"

text \<open>The call invalidates the cache: \<^verbatim>\<open>joinVoices\<close> returns.\<close>

definition invalidates :: "call \<Rightarrow> formatter \<Rightarrow> bool" where
  "invalidates c f =
     (case c of Call_joinVoices voices \<Rightarrow> fst (joinVoices f voices) = None | _ \<Rightarrow> False)"

text \<open>
  Whether, after the calls, a width computation has completed since the start (where
  \<open>known\<close> says whether one had) or since the cache was last invalidated.
\<close>

fun width_computed ::
  "(real \<Rightarrow> real \<Rightarrow> real) \<Rightarrow> call list \<Rightarrow> formatter \<Rightarrow> bool \<Rightarrow> bool" where
  "width_computed MidLine [] f known = known"
| "width_computed MidLine (c # cs) f known =
     width_computed MidLine cs (snd (exec MidLine c f))
       (if invalidates c f then False
        else if computes_width MidLine c f then True
        else known)"

subsection \<open>Notions used in the properties\<close>

text \<open>
  The integer tick of each tickable of one voice: the numerator of the running
  \<^verbatim>\<open>ticksUsed\<close> (lines 105, 108 and 122) at the moment the tickable is visited.
\<close>

fun start_ticks :: "fraction \<Rightarrow> tickable list \<Rightarrow> int list" where
  "start_ticks ticksUsed [] = []"
| "start_ticks ticksUsed (t # ts) =
     numerator ticksUsed # start_ticks (fraction_add ticksUsed (ticks t)) ts"

text \<open>
  Every tickable of every voice with its integer tick, in the order of the visit
  (voice by voice, tickable by tickable), for a given resolution multiplier.
\<close>

definition placements :: "nat \<Rightarrow> voice list \<Rightarrow> (tickable \<times> int) list" where
  "placements rm vs =
     concat (map (\<lambda>v. zip (v_tickables v) (start_ticks (Fraction 0 (int rm)) (v_tickables v))) vs)"

text \<open>The tickables whose integer tick is \<open>t\<close>, in the order of the visit.\<close>

definition members_at :: "(tickable \<times> int) list \<Rightarrow> int \<Rightarrow> tickable list" where
  "members_at P t = map fst (filter (\<lambda>p. snd p = t) P)"

text \<open>
  The invariant of the two loops of \<^verbatim>\<open>createContexts\<close> once the placements
  \<open>P\<close> have been visited: the raw tick list holds their ticks, the map is defined on
  exactly these ticks and takes different ticks to different contexts, every context of
  the array is the context of a tick, and the context of a tick has received exactly
  the tickables placed at that tick.
\<close>

definition grid_inv ::
  "'c \<Rightarrow> (tickable \<Rightarrow> 'c \<Rightarrow> 'c) \<Rightarrow> (tickable \<times> int) list \<Rightarrow> 'c grid \<Rightarrow> bool" where
  "grid_inv nc add P g \<longleftrightarrow>
     g_tickList g = map snd P \<and>
     dom (g_map g) = snd ` set P \<and>
     inj_on (g_map g) (dom (g_map g)) \<and>
     ran (g_map g) = {..<length (g_contexts g)} \<and>
     (\<forall>t k. g_map g t = Some k \<longrightarrow>
        g_contexts g ! k = foldl (\<lambda>c tb. add tb c) nc (members_at P t))"

text \<open>
  Lines 339 to 341: the width \<^verbatim>\<open>contextMap[tick].getWidth()\<close> that the context of
  a tick reports (0 when the tick has no context).
\<close>

definition width_at :: "(int \<rightharpoonup> nat) \<Rightarrow> tick_context list \<Rightarrow> int \<Rightarrow> real" where
  "width_at m arr t =
     (case lookup_context m arr t of Some k \<Rightarrow> tc_getWidth (arr ! k) | None \<Rightarrow> 0)"

text \<open>
  The context of a tick as pass 1 leaves it: the rendering handle attached when one was
  given, the layout final, and the position set.
\<close>

definition pass1_context :: "nat option \<Rightarrow> real \<Rightarrow> tick_context \<Rightarrow> tick_context" where
  "pass1_context rc x c =
     tc_setX (tc_preFormat (if rc \<noteq> None then tc_setContext c rc else c)) (Number x)"

text \<open>
  The context of a tick as pass 2 leaves it: moved by the accumulated space, its center
  aligned members shifted.
\<close>

definition pass2_context :: "real \<Rightarrow> jsnum \<Rightarrow> tick_context \<Rightarrow> tick_context" where
  "pass2_context centerX spaceAccum c =
     centerTickables centerX (tc_setX c (js_plus (tc_x c) spaceAccum))"

text \<open>
  Every tick of the tick list has a context in the map, as in every grid that
  \<^verbatim>\<open>createContexts\<close> returns.
\<close>

definition contexts_ok :: "'c contexts \<Rightarrow> bool" where
  "contexts_ok c \<longleftrightarrow> (\<forall>t \<in> set (ctx_list c). lookup_context (ctx_map c) (ctx_array c) t \<noteq> None)"

text \<open>
  The plain sum of the widths the contexts of the tick list report.
\<close>

definition minWidth :: "tick_context contexts \<Rightarrow> real" where
  "minWidth c = sum_list (map (width_at (ctx_map c) (ctx_array c)) (ctx_list c))"

text \<open>
  The value of \<^verbatim>\<open>tickSpace\<close> (line 448) in each iteration of pass 2, where
  \<open>prevTick\<close> is the tick before the first one of the list.
\<close>

fun tickSpaces :: "jsnum \<Rightarrow> int \<Rightarrow> int list \<Rightarrow> jsnum list" where
  "tickSpaces px prevTick [] = []"
| "tickSpaces px prevTick (tick # rest) = tickSpace px prevTick tick # tickSpaces px tick rest"

text \<open>
  The same increments as reals, for a finite number \<open>q\<close> of pixels per tick.
\<close>

fun increments :: "real \<Rightarrow> int \<Rightarrow> int list \<Rightarrow> real list" where
  "increments q prevTick [] = []"
| "increments q prevTick (tick # rest) =
     real_of_int (tick - prevTick) * q # increments q tick rest"

text \<open>
  The conditions of lines 258 to 265 under which \<^verbatim>\<open>AlignRestsToNotes\<close> goes on
  to set the line of a note: a stave note that is a rest, not in a tuplet unless
  tuplets are aligned, at one of the two default rest positions, and either all notes
  are aligned or the rest is beamed.
\<close>

definition eligible :: "bool \<Rightarrow> bool \<Rightarrow> tickable \<Rightarrow> bool" where
  "eligible alignAllNotes alignTuplets n \<longleftrightarrow>
     isStaveNote n \<and> isRest n \<and> \<not> (tuplet n \<and> \<not> alignTuplets) \<and>
     (toUpperCase (glyphPosition n) = ''R/4'' \<or> toUpperCase (glyphPosition n) = ''B/4'') \<and>
     (alignAllNotes \<or> beam n)"


text \<open>
  The voices \<open>vs'\<close> are the voices \<open>vs\<close> with every note that belongs to a
  tuplet unchanged: as many voices, as many notes in each, and the same note wherever
  \<^verbatim>\<open>tuplet\<close> is set.
\<close>

definition tuplet_notes_kept :: "voice list \<Rightarrow> voice list \<Rightarrow> bool" where
  "tuplet_notes_kept vs vs' \<longleftrightarrow>
     length vs' = length vs \<and>
     (\<forall>k < length vs.
        length (v_tickables (vs' ! k)) = length (v_tickables (vs ! k)) \<and>
        (\<forall>j < length (v_tickables (vs ! k)).
           tuplet (v_tickables (vs ! k) ! j) \<longrightarrow>
           v_tickables (vs' ! k) ! j = v_tickables (vs ! k) ! j))"

subsection \<open>Example data\<close>

text \<open>
  A pitched stave note of a given duration and width, and a voice of total duration 1
  with a given resolution multiplier.
\<close>

definition ex_note :: "fraction \<Rightarrow> real \<Rightarrow> tickable" where
  "ex_note t w = \<lparr>ticks = t, noteWidth = w, leftPx = 0, extraLeftPx = 0,
     centerAligned = False, center_x_shift = Number 0, isStaveNote = True, isRest = False,
     shouldIgnoreTicks = False, tuplet = False, beam = False, glyphPosition = [],
     keyProps = [3], lineForRest = 3\<rparr>"

definition ex_voice :: "nat \<Rightarrow> tickable list \<Rightarrow> voice" where
  "ex_voice rm ns = \<lparr>v_totalTicks = Fraction 1 1, v_ticksUsed = Fraction (int rm) (int rm),
     v_resolutionMultiplier = rm, v_mode = SOFT, v_isComplete = True, v_tickables = ns\<rparr>"

text \<open>Two halves against three thirds.\<close>

definition ex_halves :: voice where
  "ex_halves = ex_voice 2 [ex_note (Fraction 1 2) 20, ex_note (Fraction 1 2) 15]"

definition ex_thirds :: voice where
  "ex_thirds = ex_voice 3
     [ex_note (Fraction 1 3) 10, ex_note (Fraction 1 3) 12, ex_note (Fraction 1 3) 14]"

text \<open>
  A strict voice that is not complete, and a voice whose total ticks are 2 instead of 1.
\<close>

definition ex_incomplete :: voice where
  "ex_incomplete =
     (ex_voice 1 [ex_note (Fraction 1 2) 20])\<lparr>v_mode := STRICT, v_isComplete := False\<rparr>"

definition ex_longer :: voice where
  "ex_longer = (ex_voice 1 [ex_note (Fraction 2 1) 20])\<lparr>v_totalTicks := Fraction 2 1\<rparr>"

text \<open>
  The scenario of the specification: two voices of four quarter notes (4096 ticks each,
  16384 in the bar) of widths 20, 15, 25, 18 and 10, 12, 10, 14, the grid and the
  formatter that \<^verbatim>\<open>createTickContexts\<close> builds from them, and the contexts
  after a layout that puts them at the positions \<open>xs\<close>.
\<close>

definition ex_quarter :: "real \<Rightarrow> tickable" where
  "ex_quarter w = ex_note (Fraction 4096 1) w"

definition ex_bar :: "tickable list \<Rightarrow> voice" where
  "ex_bar ns = \<lparr>v_totalTicks = Fraction 16384 1, v_ticksUsed = Fraction 16384 1,
     v_resolutionMultiplier = 1, v_mode = SOFT, v_isComplete = True, v_tickables = ns\<rparr>"

definition ex_upper :: voice where
  "ex_upper = ex_bar [ex_quarter 20, ex_quarter 15, ex_quarter 25, ex_quarter 18]"

definition ex_lower :: voice where
  "ex_lower = ex_bar [ex_quarter 10, ex_quarter 12, ex_quarter 10, ex_quarter 14]"

definition ex_context :: "tickable list \<Rightarrow> tick_context" where
  "ex_context ns = \<lparr>tc_tickables = ns, tc_x = Number 0, tc_preFormatted = False,
     tc_postFormatted = False, tc_context = None\<rparr>"

definition ex_contexts :: "tick_context contexts" where
  "ex_contexts = \<lparr>ctx_map = [0 \<mapsto> 0, 4096 \<mapsto> 1, 8192 \<mapsto> 2, 12288 \<mapsto> 3],
     ctx_array = [ex_context [ex_quarter 20, ex_quarter 10], ex_context [ex_quarter 15, ex_quarter 12],
                  ex_context [ex_quarter 25, ex_quarter 10], ex_context [ex_quarter 18, ex_quarter 14]],
     ctx_list = [0, 4096, 8192, 12288], resolutionMultiplier = 1\<rparr>"

definition ex_formatter :: formatter where
  "ex_formatter = Formatter\<lparr>totalTicks := Fraction 16384 1, tickContexts := Some ex_contexts\<rparr>"

definition ex_laid :: "real list \<Rightarrow> tick_context list" where
  "ex_laid xs =
     [(ex_context [ex_quarter 20, ex_quarter 10])\<lparr>tc_x := Number (xs ! 0), tc_preFormatted := True\<rparr>,
      (ex_context [ex_quarter 15, ex_quarter 12])\<lparr>tc_x := Number (xs ! 1), tc_preFormatted := True\<rparr>,
      (ex_context [ex_quarter 25, ex_quarter 10])\<lparr>tc_x := Number (xs ! 2), tc_preFormatted := True\<rparr>,
      (ex_context [ex_quarter 18, ex_quarter 14])\<lparr>tc_x := Number (xs ! 3), tc_preFormatted := True\<rparr>]"

text \<open>
  The formatter of the scenario after pass 1.
\<close>

definition ex_after_pass1 :: formatter where
  "ex_after_pass1 = ex_formatter\<lparr>minTotalWidth := 78, hasMinTotalWidth := True,
     tickContexts := Some (ex_contexts\<lparr>ctx_array := ex_laid [0, 20, 35, 60]\<rparr>)\<rparr>"

text \<open>
  A voice whose only tickable has no duration (a clef or bar line): its ticks used are
  0, and so are the total ticks of the formatter built from it.
\<close>

definition ex_clef :: tickable where
  "ex_clef = (ex_note (Fraction 0 1) 10)\<lparr>shouldIgnoreTicks := True\<rparr>"

definition ex_clef_voice :: voice where
  "ex_clef_voice = (ex_bar [ex_clef])\<lparr>v_ticksUsed := Fraction 0 1\<rparr>"

definition ex_clef_contexts :: "tick_context list \<Rightarrow> tick_context contexts" where
  "ex_clef_contexts arr = \<lparr>ctx_map = [0 \<mapsto> 0], ctx_array = arr, ctx_list = [0],
     resolutionMultiplier = 1\<rparr>"

definition ex_clef_formatter :: formatter where
  "ex_clef_formatter = Formatter\<lparr>totalTicks := Fraction 0 1,
     tickContexts := Some (ex_clef_contexts [ex_context [ex_clef]])\<rparr>"

text \<open>
  A value for the parameter \<open>MidLine\<close>: the exact midpoint of two lines.
\<close>

definition ex_MidLine :: "real \<Rightarrow> real \<Rightarrow> real" where
  "ex_MidLine a b = b + (a - b) / 2"

text \<open>
  The formatter of the voice without duration after pass 1.
\<close>

definition ex_clef_after_pass1 :: formatter where
  "ex_clef_after_pass1 = ex_clef_formatter\<lparr>minTotalWidth := 10, hasMinTotalWidth := True,
        tickContexts := Some (ex_clef_contexts
          [(ex_context [ex_clef])\<lparr>tc_x := Number 0, tc_preFormatted := True\<rparr>])\<rparr>"

text \<open>
  A formatter whose cached width 78 belongs to the scenario, while its tick contexts are
  those of the voice without duration: the state after
  \<^verbatim>\<open>preCalculateMinTotalWidth\<close> on the scenario and \<^verbatim>\<open>createTickContexts\<close> on
  the other voice.
\<close>

definition ex_stale :: formatter where
  "ex_stale = ex_clef_formatter\<lparr>minTotalWidth := 78, hasMinTotalWidth := True\<rparr>"

text \<open>
  A pitched note on line 5, a rest on line 3 at the default position (written in lower
  case), and the same rest inside a tuplet.
\<close>

definition ex_pitched :: tickable where
  "ex_pitched = (ex_quarter 20)\<lparr>keyProps := [5], lineForRest := 5\<rparr>"

definition ex_rest :: tickable where
  "ex_rest = (ex_quarter 10)\<lparr>isRest := True, glyphPosition := ''b/4''\<rparr>"

definition ex_tuplet_rest :: tickable where
  "ex_tuplet_rest = ex_rest\<lparr>tuplet := True\<rparr>"

section \<open>Properties of grid construction\<close>

lemma reduce_resolution_ge:
  "reduce_resolution tt vs acc = Inr r \<Longrightarrow> acc \<le> r"
proof (induction vs arbitrary: acc)
  case Nil
  then show ?case by simp
next
  case (Cons v vs)
  from Cons.prems have
    "reduce_resolution tt vs (max acc (Fraction_LCM acc (v_resolutionMultiplier v))) = Inr r"
    by (simp split: if_splits)
  from Cons.IH [OF this] show ?case by simp
qed

lemma max_lcm_nat:
  fixes a b :: nat
  assumes "1 \<le> a" "1 \<le> b"
  shows "max a (lcm a b) = lcm a b"
proof -
  have "0 < lcm a b" using assms by (simp add: lcm_pos_nat)
  moreover have "a dvd lcm a b" by simp
  ultimately have "a \<le> lcm a b" by (rule dvd_imp_le [rotated])
  then show ?thesis by simp
qed

lemma reduce_resolution_Lcm:
  "reduce_resolution tt vs acc = Inr r \<Longrightarrow> 1 \<le> acc \<Longrightarrow>
   \<forall>v \<in> set vs. 1 \<le> v_resolutionMultiplier v \<Longrightarrow>
   r = Lcm (insert acc (v_resolutionMultiplier ` set vs))"
proof (induction vs arbitrary: acc)
  case Nil
  then show ?case by simp
next
  case (Cons v vs)
  let ?m = "v_resolutionMultiplier v"
  have m: "1 \<le> ?m" using Cons.prems(3) by simp
  have step: "max acc (Fraction_LCM acc ?m) = lcm acc ?m"
    using max_lcm_nat [OF Cons.prems(2) m] by (simp add: Fraction_LCM_def)
  from Cons.prems(1) have run: "reduce_resolution tt vs (lcm acc ?m) = Inr r"
    by (simp add: step split: if_splits)
  have pos: "1 \<le> lcm acc ?m"
    using Cons.prems(2) m by (simp add: Suc_le_eq lcm_pos_nat)
  have "r = Lcm (insert (lcm acc ?m) (v_resolutionMultiplier ` set vs))"
    using Cons.IH [OF run pos] Cons.prems(3) by simp
  then show ?case by (simp add: lcm.assoc)
qed

text \<open>
  C5. For a non-empty voice collection that passes validation, the resolution
  multiplier returned by grid construction is the least common multiple, seeded at 1,
  of the voices' resolution multipliers, and it is at least 1. A voice's resolution
  multiplier is a denominator, hence at least 1.
\<close>

theorem createContexts_resolutionMultiplier:
  assumes "createContexts (Some vs) newContext addToContext = Inr r"
    and "\<forall>v \<in> set vs. 1 \<le> v_resolutionMultiplier v"
  shows "vs \<noteq> [] \<and>
         resolutionMultiplier r = Lcm (insert 1 (v_resolutionMultiplier ` set vs)) \<and>
         1 \<le> resolutionMultiplier r"
proof (cases vs)
  case Nil
  with assms(1) show ?thesis by (simp add: createContexts_def)
next
  case (Cons v0 rest)
  from assms(1) Cons obtain rm where
    run: "reduce_resolution (v_totalTicks v0) vs 1 = Inr rm" and
    rm: "resolutionMultiplier r = rm"
    by (auto simp: createContexts_def Let_def split: sum.splits)
  have "rm = Lcm (insert 1 (v_resolutionMultiplier ` set vs))"
    using reduce_resolution_Lcm [OF run _ assms(2)] by simp
  moreover have "1 \<le> rm" using reduce_resolution_ge [OF run] .
  ultimately show ?thesis using Cons rm by simp
qed

lemma lcm_2_3: "lcm (2::nat) 3 = 6"
  by code_simp

theorem createContexts_resolutionMultiplier_witness:
  "\<exists>r. createContexts (Some [ex_halves, ex_thirds]) TickContext addTickable = Inr r \<and>
       resolutionMultiplier r = Lcm (insert 1 (v_resolutionMultiplier ` set [ex_halves, ex_thirds])) \<and>
       resolutionMultiplier r = 6"
proof -
  obtain r where r: "createContexts (Some [ex_halves, ex_thirds]) TickContext addTickable = Inr r"
    by (simp add: createContexts_def ex_halves_def ex_thirds_def ex_voice_def
        mismatched_def incomplete_def fraction_equals_def Fraction_def Let_def)
  have m: "\<forall>v \<in> set [ex_halves, ex_thirds]. 1 \<le> v_resolutionMultiplier v"
    by (simp add: ex_halves_def ex_thirds_def ex_voice_def)
  have six: "Lcm (insert 1 (v_resolutionMultiplier ` set [ex_halves, ex_thirds])) = 6"
    by (simp add: ex_halves_def ex_thirds_def ex_voice_def lcm_2_3)
  from createContexts_resolutionMultiplier [OF r m] six r show ?thesis by simp
qed

lemma reduce_resolution_Inl:
  "reduce_resolution tt vs acc = Inl e \<longleftrightarrow>
   (\<exists>pre v post. vs = pre @ v # post \<and>
      (\<forall>u \<in> set pre. \<not> mismatched tt u \<and> \<not> incomplete u) \<and>
      (if mismatched tt v then e = TickMismatch else incomplete v \<and> e = IncompleteVoice))"
  (is "_ \<longleftrightarrow> ?R vs")
proof (induction vs arbitrary: acc)
  case Nil
  then show ?case by simp
next
  case (Cons w ws)
  show ?case
  proof (cases "mismatched tt w \<or> incomplete w")
    case True
    have "?R (w # ws) \<longleftrightarrow>
      (if mismatched tt w then e = TickMismatch else incomplete w \<and> e = IncompleteVoice)"
    proof
      assume "?R (w # ws)"
      then obtain pre v post where p: "w # ws = pre @ v # post"
        "\<forall>u \<in> set pre. \<not> mismatched tt u \<and> \<not> incomplete u"
        "if mismatched tt v then e = TickMismatch else incomplete v \<and> e = IncompleteVoice"
        by blast
      from p(1,2) True have "pre = []" by (cases pre) auto
      with p(1,3) show "if mismatched tt w then e = TickMismatch else incomplete w \<and> e = IncompleteVoice"
        by simp
    next
      assume "if mismatched tt w then e = TickMismatch else incomplete w \<and> e = IncompleteVoice"
      then have "w # ws = [] @ w # ws \<and>
        (\<forall>u \<in> set []. \<not> mismatched tt u \<and> \<not> incomplete u) \<and>
        (if mismatched tt w then e = TickMismatch else incomplete w \<and> e = IncompleteVoice)"
        by simp
      then show "?R (w # ws)" by blast
    qed
    with True show ?thesis by auto
  next
    case False
    have "?R (w # ws) \<longleftrightarrow> ?R ws"
    proof
      assume "?R (w # ws)"
      then obtain pre v post where p: "w # ws = pre @ v # post"
        "\<forall>u \<in> set pre. \<not> mismatched tt u \<and> \<not> incomplete u"
        "if mismatched tt v then e = TickMismatch else incomplete v \<and> e = IncompleteVoice"
        by blast
      from p(1,3) False obtain pre' where "pre = w # pre'" "ws = pre' @ v # post"
        by (cases pre) (auto split: if_splits)
      with p(2,3) have "ws = pre' @ v # post \<and>
        (\<forall>u \<in> set pre'. \<not> mismatched tt u \<and> \<not> incomplete u) \<and>
        (if mismatched tt v then e = TickMismatch else incomplete v \<and> e = IncompleteVoice)"
        by simp
      then show "?R ws" by blast
    next
      assume "?R ws"
      then obtain pre v post where p: "ws = pre @ v # post"
        "\<forall>u \<in> set pre. \<not> mismatched tt u \<and> \<not> incomplete u"
        "if mismatched tt v then e = TickMismatch else incomplete v \<and> e = IncompleteVoice"
        by blast
      then have "w # ws = (w # pre) @ v # post \<and>
        (\<forall>u \<in> set (w # pre). \<not> mismatched tt u \<and> \<not> incomplete u) \<and>
        (if mismatched tt v then e = TickMismatch else incomplete v \<and> e = IncompleteVoice)"
        using False by simp
      then show "?R (w # ws)" by blast
    qed
    with False Cons.IH show ?thesis by simp
  qed
qed

lemma createContexts_Inl:
  "createContexts voices nc add = Inl e \<longleftrightarrow>
     (case voices of None \<Rightarrow> e = BadArgument | Some [] \<Rightarrow> e = BadArgument
      | Some (v0 # vs) \<Rightarrow> reduce_resolution (v_totalTicks v0) (v0 # vs) 1 = Inl e)"
  by (auto simp: createContexts_def Let_def split: option.splits list.splits sum.splits)

lemma reduce_not_BadArgument: "reduce_resolution tt vs acc \<noteq> Inl BadArgument"
  by (simp add: reduce_resolution_Inl)

text \<open>
  C4 (as the code has it). Grid construction raises \<open>BadArgument\<close> exactly when the
  voice collection is missing or empty. Otherwise the voices are validated in order and
  the first voice that fails a check decides the error: \<open>TickMismatch\<close> exactly when
  that voice's total ticks differ from the first voice's, \<open>IncompleteVoice\<close> exactly
  when its total ticks agree and it is strict and not complete. A failed call creates
  no contexts: the formatter is left as it was.
\<close>

theorem createContexts_errors:
  "(createContexts voices nc add = Inl BadArgument \<longleftrightarrow> voices = None \<or> voices = Some []) \<and>
   (voices = Some vs \<and> vs \<noteq> [] \<longrightarrow>
      (createContexts voices nc add = Inl TickMismatch \<longleftrightarrow>
         (\<exists>pre v post. vs = pre @ v # post \<and>
            (\<forall>u \<in> set pre. \<not> mismatched (v_totalTicks (hd vs)) u \<and> \<not> incomplete u) \<and>
            mismatched (v_totalTicks (hd vs)) v)) \<and>
      (createContexts voices nc add = Inl IncompleteVoice \<longleftrightarrow>
         (\<exists>pre v post. vs = pre @ v # post \<and>
            (\<forall>u \<in> set pre. \<not> mismatched (v_totalTicks (hd vs)) u \<and> \<not> incomplete u) \<and>
            \<not> mismatched (v_totalTicks (hd vs)) v \<and> incomplete v))) \<and>
   (\<forall>e. createContexts voices nc add = Inl e \<longrightarrow>
      createTickContexts f voices = (Inl e, f) \<and> createModifierContexts f voices = (Inl e, f))"
proof (intro conjI)
  show "createContexts voices nc add = Inl BadArgument \<longleftrightarrow> voices = None \<or> voices = Some []"
    by (auto simp: createContexts_Inl reduce_not_BadArgument split: option.splits list.splits)
next
  show "voices = Some vs \<and> vs \<noteq> [] \<longrightarrow>
      (createContexts voices nc add = Inl TickMismatch \<longleftrightarrow>
         (\<exists>pre v post. vs = pre @ v # post \<and>
            (\<forall>u \<in> set pre. \<not> mismatched (v_totalTicks (hd vs)) u \<and> \<not> incomplete u) \<and>
            mismatched (v_totalTicks (hd vs)) v)) \<and>
      (createContexts voices nc add = Inl IncompleteVoice \<longleftrightarrow>
         (\<exists>pre v post. vs = pre @ v # post \<and>
            (\<forall>u \<in> set pre. \<not> mismatched (v_totalTicks (hd vs)) u \<and> \<not> incomplete u) \<and>
            \<not> mismatched (v_totalTicks (hd vs)) v \<and> incomplete v))"
  proof
    assume a: "voices = Some vs \<and> vs \<noteq> []"
    then obtain v0 rest where vs: "vs = v0 # rest" by (cases vs) auto
    have e: "\<And>e. createContexts voices nc add = Inl e \<longleftrightarrow>
      reduce_resolution (v_totalTicks (hd vs)) vs 1 = Inl e"
      using a vs by (simp add: createContexts_Inl)
    show "(createContexts voices nc add = Inl TickMismatch \<longleftrightarrow>
         (\<exists>pre v post. vs = pre @ v # post \<and>
            (\<forall>u \<in> set pre. \<not> mismatched (v_totalTicks (hd vs)) u \<and> \<not> incomplete u) \<and>
            mismatched (v_totalTicks (hd vs)) v)) \<and>
      (createContexts voices nc add = Inl IncompleteVoice \<longleftrightarrow>
         (\<exists>pre v post. vs = pre @ v # post \<and>
            (\<forall>u \<in> set pre. \<not> mismatched (v_totalTicks (hd vs)) u \<and> \<not> incomplete u) \<and>
            \<not> mismatched (v_totalTicks (hd vs)) v \<and> incomplete v))"
      unfolding e reduce_resolution_Inl by (auto split: if_splits)
  qed
next
  show "\<forall>e. createContexts voices nc add = Inl e \<longrightarrow>
      createTickContexts f voices = (Inl e, f) \<and> createModifierContexts f voices = (Inl e, f)"
    by (auto simp: createContexts_Inl createTickContexts_def createModifierContexts_def createContexts_def Let_def
        split: option.splits list.splits sum.splits)
qed

text \<open>
  An incomplete strict voice followed by a voice of different total ticks raises
  \<open>IncompleteVoice\<close>, although a voice's total ticks differ from the first voice's.
\<close>

theorem createContexts_errors_counterexample:
  "createContexts (Some [ex_incomplete, ex_longer]) TickContext addTickable = Inl IncompleteVoice \<and>
   mismatched (v_totalTicks ex_incomplete) ex_longer \<and>
   incomplete ex_incomplete"
  by (simp add: createContexts_def ex_incomplete_def ex_longer_def ex_voice_def
      mismatched_def incomplete_def fraction_equals_def Fraction_def)

theorem createContexts_errors_witness:
  "createContexts (Some [ex_incomplete, ex_longer]) TickContext addTickable = Inl IncompleteVoice \<and>
   createContexts (Some [ex_incomplete, ex_longer]) TickContext addTickable \<noteq> Inl TickMismatch \<and>
   createContexts (Some [ex_incomplete, ex_longer]) TickContext addTickable \<noteq> Inl BadArgument \<and>
   createTickContexts Formatter (Some [ex_incomplete, ex_longer]) = (Inl IncompleteVoice, Formatter)"
proof -
  let ?vs = "[ex_incomplete, ex_longer]"
  note inst = createContexts_errors [of "Some ?vs" TickContext addTickable ?vs Formatter]
  have ok: "\<not> mismatched (v_totalTicks (hd ?vs)) ex_incomplete" and bad: "incomplete ex_incomplete"
    by (simp_all add: ex_incomplete_def ex_voice_def mismatched_def incomplete_def
        fraction_equals_def Fraction_def)
  have "?vs = [] @ ex_incomplete # [ex_longer] \<and>
        (\<forall>u \<in> set []. \<not> mismatched (v_totalTicks (hd ?vs)) u \<and> \<not> incomplete u) \<and>
        \<not> mismatched (v_totalTicks (hd ?vs)) ex_incomplete \<and> incomplete ex_incomplete"
    using ok bad by simp
  then have ex: "\<exists>pre v post. ?vs = pre @ v # post \<and>
        (\<forall>u \<in> set pre. \<not> mismatched (v_totalTicks (hd ?vs)) u \<and> \<not> incomplete u) \<and>
        \<not> mismatched (v_totalTicks (hd ?vs)) v \<and> incomplete v"
    by blast
  from inst ex have r: "createContexts (Some ?vs) TickContext addTickable = Inl IncompleteVoice"
    by simp
  from inst r have "createTickContexts Formatter (Some ?vs) = (Inl IncompleteVoice, Formatter)"
    by blast
  with r show ?thesis by simp
qed

lemma members_at_snoc:
  "members_at (P @ [(tb, t)]) t' = (if t' = t then members_at P t' @ [tb] else members_at P t')"
  by (simp add: members_at_def)

lemma members_at_fresh: "t \<notin> snd ` set P \<Longrightarrow> members_at P t = []"
  by (auto simp: members_at_def filter_empty_conv)

lemma grid_invD:
  assumes "grid_inv nc add P g"
  shows "g_tickList g = map snd P"
    and "dom (g_map g) = snd ` set P"
    and "inj_on (g_map g) (dom (g_map g))"
    and "ran (g_map g) = {..<length (g_contexts g)}"
    and "g_map g t = Some k \<Longrightarrow>
          g_contexts g ! k = foldl (\<lambda>c tb. add tb c) nc (members_at P t)"
  using assms unfolding grid_inv_def by blast+

lemma grid_inv_step:
  assumes inv: "grid_inv nc add P g"
    and ca: "context_at nc t g = (k, g1)"
  shows "grid_inv nc add (P @ [(tb, t)])
           (g1\<lparr>g_contexts := (g_contexts g1)[k := add tb (g_contexts g1 ! k)],
               g_tickList := g_tickList g1 @ [t]\<rparr>)"
proof (cases "g_map g t")
  case (Some k')
  with ca have k: "k' = k" and g1: "g1 = g" by (simp_all add: context_at_def)
  note tl = grid_invD(1) [OF inv] and dom = grid_invD(2) [OF inv]
    and inj = grid_invD(3) [OF inv] and ran = grid_invD(4) [OF inv]
    and cont = grid_invD(5) [OF inv]
  from Some k have "k \<in> ran (g_map g)" by (simp add: ranI)
  then have klt: "k < length (g_contexts g)" unfolding ran by simp
  from Some dom have tin: "t \<in> snd ` set P" by auto
  have c: "(g_contexts g)[k := add tb (g_contexts g ! k)] ! j =
       foldl (\<lambda>c tb. add tb c) nc (members_at (P @ [(tb, t)]) s)"
    if s: "g_map g s = Some j" for s j
  proof (cases "s = t")
    case True
    with s Some k have "j = k" by simp
    with True klt cont [OF s] show ?thesis by (simp add: members_at_snoc)
  next
    case False
    with inj s Some k have "j \<noteq> k" by (auto simp: inj_on_def dom_def)
    with False cont [OF s] show ?thesis by (simp add: members_at_snoc)
  qed
  show ?thesis
    unfolding grid_inv_def g1
  proof (intro conjI allI impI)
    show "g_tickList (g\<lparr>g_contexts := (g_contexts g)[k := add tb (g_contexts g ! k)],
                         g_tickList := g_tickList g @ [t]\<rparr>) = map snd (P @ [(tb, t)])"
      using tl by simp
    show "dom (g_map (g\<lparr>g_contexts := (g_contexts g)[k := add tb (g_contexts g ! k)],
                         g_tickList := g_tickList g @ [t]\<rparr>)) = snd ` set (P @ [(tb, t)])"
      using dom tin by (simp add: insert_absorb)
    show "inj_on (g_map (g\<lparr>g_contexts := (g_contexts g)[k := add tb (g_contexts g ! k)],
                         g_tickList := g_tickList g @ [t]\<rparr>))
            (dom (g_map (g\<lparr>g_contexts := (g_contexts g)[k := add tb (g_contexts g ! k)],
                         g_tickList := g_tickList g @ [t]\<rparr>)))"
      using inj by simp
    show "ran (g_map (g\<lparr>g_contexts := (g_contexts g)[k := add tb (g_contexts g ! k)],
                         g_tickList := g_tickList g @ [t]\<rparr>)) =
          {..<length (g_contexts (g\<lparr>g_contexts := (g_contexts g)[k := add tb (g_contexts g ! k)],
                         g_tickList := g_tickList g @ [t]\<rparr>))}"
      using ran by simp
    fix s j
    assume "g_map (g\<lparr>g_contexts := (g_contexts g)[k := add tb (g_contexts g ! k)],
                         g_tickList := g_tickList g @ [t]\<rparr>) s = Some j"
    then have "g_map g s = Some j" by simp
    from c [OF this]
    show "g_contexts (g\<lparr>g_contexts := (g_contexts g)[k := add tb (g_contexts g ! k)],
                         g_tickList := g_tickList g @ [t]\<rparr>) ! j =
          foldl (\<lambda>c tb. add tb c) nc (members_at (P @ [(tb, t)]) s)"
      by simp
  qed
next
  case None
  with ca have k: "k = length (g_contexts g)"
    and g1: "g1 = g\<lparr>g_contexts := g_contexts g @ [nc],
                     g_map := (g_map g)(t \<mapsto> length (g_contexts g))\<rparr>"
    by (auto simp: context_at_def)
  note tl = grid_invD(1) [OF inv] and dom = grid_invD(2) [OF inv]
    and inj = grid_invD(3) [OF inv] and ran = grid_invD(4) [OF inv]
    and cont = grid_invD(5) [OF inv]
  from None dom have fresh: "t \<notin> snd ` set P" by auto
  have ran': "ran ((g_map g)(t \<mapsto> length (g_contexts g))) = {..<Suc (length (g_contexts g))}"
    by (simp add: ran_map_upd None ran lessThan_Suc)
  have inj': "inj_on ((g_map g)(t \<mapsto> length (g_contexts g))) (insert t (dom (g_map g)))"
  proof (rule inj_onI)
    fix a b
    assume a: "a \<in> insert t (dom (g_map g))" and b: "b \<in> insert t (dom (g_map g))"
      and eq: "((g_map g)(t \<mapsto> length (g_contexts g))) a = ((g_map g)(t \<mapsto> length (g_contexts g))) b"
    have nolen: "g_map g s \<noteq> Some (length (g_contexts g))" for s
    proof
      assume "g_map g s = Some (length (g_contexts g))"
      then have "length (g_contexts g) \<in> ran (g_map g)" by (rule ranI)
      then show False unfolding ran by simp
    qed
    show "a = b"
    proof (cases "a = t")
      case True
      with eq nolen [of b] show ?thesis by (auto split: if_splits)
    next
      case False
      with eq nolen [of a] have "b \<noteq> t" by (auto split: if_splits)
      with False eq a b inj show ?thesis by (auto simp: inj_on_def)
    qed
  qed
  have c: "((g_contexts g @ [nc])[length (g_contexts g) := add tb nc]) ! j =
       foldl (\<lambda>c tb. add tb c) nc (members_at (P @ [(tb, t)]) s)"
    if s: "((g_map g)(t \<mapsto> length (g_contexts g))) s = Some j" for s j
  proof (cases "s = t")
    case True
    with s have "j = length (g_contexts g)" by simp
    with True fresh show ?thesis by (simp add: members_at_snoc members_at_fresh)
  next
    case False
    with s have sj: "g_map g s = Some j" by simp
    then have "j \<in> ran (g_map g)" by (rule ranI)
    then have "j < length (g_contexts g)" unfolding ran by simp
    with False cont [OF sj] show ?thesis by (simp add: members_at_snoc nth_append)
  qed
  let ?g2 = "g\<lparr>g_contexts := g_contexts g @ [nc],
               g_map := (g_map g)(t \<mapsto> length (g_contexts g)),
               g_contexts := (g_contexts g @ [nc])[length (g_contexts g) := add tb nc],
               g_tickList := g_tickList g @ [t]\<rparr>"
  have g2: "g1\<lparr>g_contexts := (g_contexts g1)[k := add tb (g_contexts g1 ! k)],
               g_tickList := g_tickList g1 @ [t]\<rparr> = ?g2"
    unfolding g1 k by simp
  have sel: "g_tickList ?g2 = g_tickList g @ [t]"
    "g_map ?g2 = (g_map g)(t \<mapsto> length (g_contexts g))"
    "g_contexts ?g2 = (g_contexts g @ [nc])[length (g_contexts g) := add tb nc]"
    by simp_all
  show ?thesis
    unfolding grid_inv_def g2 sel
  proof (intro conjI allI impI)
    show "g_tickList g @ [t] = map snd (P @ [(tb, t)])"
      using tl by simp
    show "dom ((g_map g)(t \<mapsto> length (g_contexts g))) = snd ` set (P @ [(tb, t)])"
      using dom by simp
    show "inj_on ((g_map g)(t \<mapsto> length (g_contexts g)))
            (dom ((g_map g)(t \<mapsto> length (g_contexts g))))"
      using inj' by simp
    show "ran ((g_map g)(t \<mapsto> length (g_contexts g))) =
          {..<length ((g_contexts g @ [nc])[length (g_contexts g) := add tb nc])}"
      using ran' by simp
    fix s j
    assume "((g_map g)(t \<mapsto> length (g_contexts g))) s = Some j"
    from c [OF this]
    show "(g_contexts g @ [nc])[length (g_contexts g) := add tb nc] ! j =
          foldl (\<lambda>c tb. add tb c) nc (members_at (P @ [(tb, t)]) s)" .
  qed
qed


lemma add_tickables_inv:
  "grid_inv nc add P g \<Longrightarrow>
   grid_inv nc add (P @ zip ts (start_ticks tu ts)) (add_tickables nc add ts tu g)"
proof (induction ts arbitrary: tu g P)
  case Nil
  then show ?case by simp
next
  case (Cons t ts)
  obtain k g1 where ca: "context_at nc (numerator tu) g = (k, g1)"
    by (cases "context_at nc (numerator tu) g")
  let ?g2 = "g1\<lparr>g_contexts := (g_contexts g1)[k := add t (g_contexts g1 ! k)],
                 g_tickList := g_tickList g1 @ [numerator tu]\<rparr>"
  have "grid_inv nc add (P @ [(t, numerator tu)]) ?g2"
    using grid_inv_step [OF Cons.prems ca] .
  from Cons.IH [OF this, of "fraction_add tu (ticks t)"] ca
  show ?case by (simp add: Let_def)
qed

lemma placements_Cons:
  "placements rm (v # vs) =
     zip (v_tickables v) (start_ticks (Fraction 0 (int rm)) (v_tickables v)) @ placements rm vs"
  by (simp add: placements_def)

lemma add_voices_inv:
  "grid_inv nc add P g \<Longrightarrow>
   grid_inv nc add (P @ placements rm vs) (add_voices nc add rm vs g)"
proof (induction vs arbitrary: g P)
  case Nil
  then show ?case by (simp add: placements_def)
next
  case (Cons v vs)
  from Cons.IH [OF add_tickables_inv [OF Cons.prems]]
  show ?case by (simp add: placements_Cons)
qed

lemma grid_inv_empty:
  "grid_inv nc add [] \<lparr>g_map = Map.empty, g_contexts = [], g_tickList = []\<rparr>"
  by (simp add: grid_inv_def)

lemma grid_inv_card:
  assumes "grid_inv nc add P g"
  shows "length (g_contexts g) = card (snd ` set P)"
proof -
  note dom = grid_invD(2) [OF assms] and inj = grid_invD(3) [OF assms]
    and ran = grid_invD(4) [OF assms]
  have "ran (g_map g) = (\<lambda>t. the (g_map g t)) ` dom (g_map g)"
    by (force simp: ran_def dom_def image_iff)
  moreover have "inj_on (\<lambda>t. the (g_map g t)) (dom (g_map g))"
  proof (rule inj_onI)
    fix a b assume a: "a \<in> dom (g_map g)" and b: "b \<in> dom (g_map g)"
      and eq: "the (g_map g a) = the (g_map g b)"
    from a b eq have "g_map g a = g_map g b" by (auto simp: dom_def)
    with inj a b show "a = b" by (simp add: inj_on_def)
  qed
  ultimately have "card (ran (g_map g)) = card (dom (g_map g))"
    by (simp add: card_image)
  then show ?thesis unfolding ran dom by simp
qed

lemma SortAndUnique_set: "set (SortAndUnique xs) = set xs"
  by (simp add: SortAndUnique_def)

lemma strict_sorted_remdups_adj:
  fixes xs :: "int list"
  shows "sorted xs \<Longrightarrow> sorted_wrt (<) (remdups_adj xs)"
proof (induction xs rule: remdups_adj.induct)
  case 1
  then show ?case by simp
next
  case (2 x)
  then show ?case by simp
next
  case (3 x y xs)
  show ?case
  proof (cases "x = y")
    case True
    with 3 show ?thesis by simp
  next
    case False
    from "3.prems" have xy: "x \<le> y" and rest: "sorted (y # xs)" by simp_all
    from rest have "\<forall>z \<in> set (y # xs). y \<le> z" by auto
    with xy False have "\<forall>z \<in> set (remdups_adj (y # xs)). x < z" by auto
    moreover have "sorted_wrt (<) (remdups_adj (y # xs))"
      using "3.IH"(2) [OF False rest] .
    ultimately show ?thesis using False by simp
  qed
qed

lemma SortAndUnique_sorted: "sorted_wrt (<) (SortAndUnique xs)"
  by (simp add: SortAndUnique_def strict_sorted_remdups_adj)

lemma createContexts_Inr:
  assumes "createContexts (Some vs) nc add = Inr r"
  shows "vs \<noteq> []"
    and "grid_inv nc add (placements (resolutionMultiplier r) vs)
           \<lparr>g_map = ctx_map r, g_contexts = ctx_array r,
            g_tickList = map snd (placements (resolutionMultiplier r) vs)\<rparr>"
    and "ctx_list r = SortAndUnique (map snd (placements (resolutionMultiplier r) vs))"
proof -
  from assms show ne: "vs \<noteq> []" by (auto simp: createContexts_def)
  then obtain v0 rest where vs: "vs = v0 # rest" by (cases vs) auto
  from assms vs obtain rm where
    rm: "reduce_resolution (v_totalTicks v0) vs 1 = Inr rm"
    by (auto simp: createContexts_def Let_def split: sum.splits)
  let ?g = "add_voices nc add rm vs \<lparr>g_map = Map.empty, g_contexts = [], g_tickList = []\<rparr>"
  from assms vs rm have r: "r = \<lparr>ctx_map = g_map ?g, ctx_array = g_contexts ?g,
                        ctx_list = SortAndUnique (g_tickList ?g),
                        resolutionMultiplier = rm\<rparr>"
    by (auto simp: createContexts_def Let_def)
  have inv: "grid_inv nc add (placements rm vs) ?g"
    using add_voices_inv [OF grid_inv_empty, of nc add rm vs] by simp
  have tl: "g_tickList ?g = map snd (placements rm vs)"
    using grid_invD(1) [OF inv] .
  have "\<lparr>g_map = g_map ?g, g_contexts = g_contexts ?g, g_tickList = map snd (placements rm vs)\<rparr> = ?g"
    using tl by simp
  with inv show "grid_inv nc add (placements (resolutionMultiplier r) vs)
           \<lparr>g_map = ctx_map r, g_contexts = ctx_array r,
            g_tickList = map snd (placements (resolutionMultiplier r) vs)\<rparr>"
    unfolding r by simp
  show "ctx_list r = SortAndUnique (map snd (placements (resolutionMultiplier r) vs))"
    unfolding r using tl by simp
qed

text \<open>
  C3. For a non-empty collection of voices that passes validation, grid construction
  creates exactly one context per distinct integer tick that occurs across the voices
  (the number of contexts is the number of distinct ticks, the map is defined on exactly
  these ticks and sends different ticks to different contexts of the array, and the
  tick list holds each of them once), and the context of a tick has received, through
  \<open>addToContext\<close>, exactly the tickables whose running start-time numerator is that
  tick, each once and in the order of the visit.
\<close>

theorem createContexts_one_context_per_tick:
  assumes "createContexts (Some vs) newContext addToContext = Inr r"
  shows "vs \<noteq> [] \<and>
         length (ctx_array r) = card (snd ` set (placements (resolutionMultiplier r) vs)) \<and>
         dom (ctx_map r) = snd ` set (placements (resolutionMultiplier r) vs) \<and>
         set (ctx_list r) = snd ` set (placements (resolutionMultiplier r) vs) \<and>
         distinct (ctx_list r) \<and>
         inj_on (ctx_map r) (dom (ctx_map r)) \<and>
         (\<forall>t k. ctx_map r t = Some k \<longrightarrow>
            k < length (ctx_array r) \<and>
            ctx_array r ! k =
              foldl (\<lambda>c tb. addToContext tb c) newContext
                (members_at (placements (resolutionMultiplier r) vs) t))"
proof -
  let ?P = "placements (resolutionMultiplier r) vs"
  let ?g = "\<lparr>g_map = ctx_map r, g_contexts = ctx_array r, g_tickList = map snd ?P\<rparr>"
  note ne = createContexts_Inr(1) [OF assms] and inv = createContexts_Inr(2) [OF assms]
    and lst = createContexts_Inr(3) [OF assms]
  have len: "length (ctx_array r) = card (snd ` set ?P)"
    using grid_inv_card [OF inv] by simp
  have dom: "dom (ctx_map r) = snd ` set ?P"
    using grid_invD(2) [OF inv] by simp
  have inj: "inj_on (ctx_map r) (dom (ctx_map r))"
    using grid_invD(3) [OF inv] by simp
  have ran: "ran (ctx_map r) = {..<length (ctx_array r)}"
    using grid_invD(4) [OF inv] by simp
  have set: "set (ctx_list r) = snd ` set ?P"
    unfolding lst by (simp add: SortAndUnique_set)
  have dist: "distinct (ctx_list r)"
    unfolding lst using SortAndUnique_sorted strict_sorted_iff by blast
  have cont: "k < length (ctx_array r) \<and>
      ctx_array r ! k = foldl (\<lambda>c tb. addToContext tb c) newContext (members_at ?P t)"
    if "ctx_map r t = Some k" for t k
  proof
    from that have "k \<in> ran (ctx_map r)" by (rule ranI)
    then show "k < length (ctx_array r)" unfolding ran by simp
    from that have "g_map ?g t = Some k" by simp
    from grid_invD(5) [OF inv this]
    show "ctx_array r ! k = foldl (\<lambda>c tb. addToContext tb c) newContext (members_at ?P t)"
      by simp
  qed
  from ne len dom set dist inj cont show ?thesis by blast
qed

lemma lcm_int_6_2: "lcm (6::int) 2 = 6" by code_simp
lemma lcm_int_6_3: "lcm (6::int) 3 = 6" by code_simp

lemma lcm_Suc2_3: "lcm (Suc (Suc 0)) (3::nat) = 6" by code_simp

lemmas ex_grid_simps = createContexts_def ex_halves_def ex_thirds_def ex_voice_def ex_note_def
  mismatched_def incomplete_def fraction_equals_def Fraction_def Fraction_LCM_def Let_def
  context_at_def fraction_add_def addTickable_def TickContext_def SortAndUnique_def
  lcm_Suc2_3 lcm_int_6_2 lcm_int_6_3

lemma ex_grid:
  "\<exists>r. createContexts (Some [ex_halves, ex_thirds]) TickContext addTickable = Inr r \<and>
       resolutionMultiplier r = 6 \<and> ctx_list r = [0, 2, 3, 4] \<and>
       ctx_map r 0 = Some 0 \<and> ctx_map r 3 = Some 1 \<and> ctx_map r 2 = Some 2 \<and> ctx_map r 4 = Some 3"
  by (simp add: ex_grid_simps)

lemma ex_placements:
  "placements 6 [ex_halves, ex_thirds] =
     [(ex_note (Fraction 1 2) 20, 0), (ex_note (Fraction 1 2) 15, 3),
      (ex_note (Fraction 1 3) 10, 0), (ex_note (Fraction 1 3) 12, 2),
      (ex_note (Fraction 1 3) 14, 4)]"
  by (simp add: placements_def ex_halves_def ex_thirds_def ex_voice_def ex_note_def
      Fraction_def fraction_add_def Let_def lcm_int_6_2 lcm_int_6_3)

theorem createContexts_one_context_per_tick_witness:
  "\<exists>r. createContexts (Some [ex_halves, ex_thirds]) TickContext addTickable = Inr r \<and>
       ctx_list r = [0, 2, 3, 4] \<and>
       length (ctx_array r) = 4 \<and>
       ctx_map r 0 = Some 0 \<and>
       tc_tickables (ctx_array r ! 0) = [ex_note (Fraction 1 2) 20, ex_note (Fraction 1 3) 10] \<and>
       ctx_map r 3 = Some 1 \<and>
       tc_tickables (ctx_array r ! 1) = [ex_note (Fraction 1 2) 15]"
proof -
  from ex_grid obtain r where
    r: "createContexts (Some [ex_halves, ex_thirds]) TickContext addTickable = Inr r"
    and rm: "resolutionMultiplier r = 6" and lst: "ctx_list r = [0, 2, 3, 4]"
    and m0: "ctx_map r 0 = Some 0" and m3: "ctx_map r 3 = Some 1"
    by blast
  note inst = createContexts_one_context_per_tick [OF r, unfolded rm ex_placements]
  from inst have "length (ctx_array r) = 4" by (simp add: card_insert_if)
  moreover from inst m0
  have "tc_tickables (ctx_array r ! 0) = [ex_note (Fraction 1 2) 20, ex_note (Fraction 1 3) 10]"
    by (simp add: members_at_def addTickable_def TickContext_def)
  moreover from inst m3
  have "tc_tickables (ctx_array r ! 1) = [ex_note (Fraction 1 2) 15]"
    by (simp add: members_at_def addTickable_def TickContext_def)
  ultimately show ?thesis using r lst m0 m3 by blast
qed

section \<open>Properties of the two passes of \<^verbatim>\<open>preFormat\<close>\<close>

lemma foldl_plus_sum_list: "foldl (+) a ws = a + sum_list ws" for a :: real
  by (induction ws arbitrary: a) simp_all

lemma lookup_context_cong:
  "length arr' = length arr \<Longrightarrow> lookup_context m arr' t = lookup_context m arr t"
  by (simp add: lookup_context_def split: option.splits)

lemma lookup_context_Some:
  "lookup_context m arr t = Some k \<longleftrightarrow> m t = Some k \<and> k < length arr"
  by (auto simp: lookup_context_def split: option.splits)

lemma tc_getWidth_cong:
  "tc_tickables c' = tc_tickables c \<Longrightarrow> tc_getWidth c' = tc_getWidth c"
  by (simp add: tc_getWidth_def)

lemma tc_left_cong: "tc_tickables c' = tc_tickables c \<Longrightarrow> tc_left c' = tc_left c"
  by (simp add: tc_left_def)

lemma tc_extraLeft_cong:
  "tc_tickables c' = tc_tickables c \<Longrightarrow> tc_extraLeft c' = tc_extraLeft c"
  by (simp add: tc_extraLeft_def)

lemma width_at_cong:
  assumes "map tc_tickables arr' = map tc_tickables arr"
  shows "width_at m arr' t = width_at m arr t"
proof -
  from assms have len: "length arr' = length arr" by (rule map_eq_imp_length_eq)
  show ?thesis
  proof (cases "lookup_context m arr t")
    case None
    then show ?thesis by (simp add: width_at_def lookup_context_cong [OF len])
  next
    case (Some k)
    then have "k < length arr" by (simp add: lookup_context_Some)
    with assms len have "tc_tickables (arr' ! k) = tc_tickables (arr ! k)"
      by (metis nth_map)
    then have "tc_getWidth (arr' ! k) = tc_getWidth (arr ! k)" by (rule tc_getWidth_cong)
    with Some show ?thesis by (simp add: width_at_def lookup_context_cong [OF len])
  qed
qed

lemma pass1_context_simps:
  "tc_tickables (pass1_context rc x c) = tc_tickables c"
  "tc_x (pass1_context rc x c) = Number x"
  "tc_postFormatted (pass1_context rc x c) = tc_postFormatted c"
  by (simp_all add: pass1_context_def tc_setX_def tc_preFormat_def tc_setContext_def)

lemma pass1_step_Some:
  assumes "lookup_context m arr t = Some k"
  shows "pass1_step rc m t (x, shift, mtw, arr) =
           (None, (x + shift + tc_left (arr ! k) + tc_extraLeft (arr ! k),
                   tc_getWidth (arr ! k) - (tc_left (arr ! k) + tc_extraLeft (arr ! k)),
                   mtw + tc_getWidth (arr ! k),
                   arr[k := pass1_context rc
                              (x + shift + tc_left (arr ! k) + tc_extraLeft (arr ! k)) (arr ! k)]))"
  using assms
  by (simp add: pass1_step_def Let_def pass1_context_def tc_setContext_def tc_preFormat_def
      tc_setX_def tc_getWidth_def tc_left_def tc_extraLeft_def)

lemma pass1_step_None:
  "lookup_context m arr t = None \<Longrightarrow>
   pass1_step rc m t (x, shift, mtw, arr) = (Some TypeError, (x, shift, mtw, arr))"
  by (simp add: pass1_step_def)

lemma map_tickables_update:
  "k < length arr \<Longrightarrow> tc_tickables c' = tc_tickables (arr ! k) \<Longrightarrow>
   map tc_tickables (arr[k := c']) = map tc_tickables arr"
  by (simp add: map_update list_update_same_conv)

text \<open>Pass 1 over a tick list all of whose ticks have a context.\<close>

lemma pass1_forEach_ok:
  assumes "\<forall>t \<in> set ts. lookup_context m arr t \<noteq> None"
  shows "\<exists>x' shift' arr'.
           forEach (pass1_step rc m) ts (x, shift, mtw, arr) =
             (None, (x', shift', mtw + sum_list (map (width_at m arr) ts), arr')) \<and>
           x' + shift' = x + shift + sum_list (map (width_at m arr) ts) \<and>
           map tc_tickables arr' = map tc_tickables arr \<and>
           (\<forall>t \<in> set ts. \<forall>k. m t = Some k \<longrightarrow> (\<exists>y. tc_x (arr' ! k) = Number y)) \<and>
           (\<forall>j. (\<exists>y. tc_x (arr ! j) = Number y) \<longrightarrow> (\<exists>y. tc_x (arr' ! j) = Number y))"
  using assms
proof (induction ts arbitrary: x shift mtw arr)
  case Nil
  then show ?case by simp
next
  case (Cons t ts)
  from Cons.prems obtain k where k: "lookup_context m arr t = Some k" by auto
  then have klt: "k < length arr" and mt: "m t = Some k" by (simp_all add: lookup_context_Some)
  define c' where
    "c' = pass1_context rc (x + shift + tc_left (arr ! k) + tc_extraLeft (arr ! k)) (arr ! k)"
  have step: "pass1_step rc m t (x, shift, mtw, arr) =
           (None, (x + shift + tc_left (arr ! k) + tc_extraLeft (arr ! k),
                   tc_getWidth (arr ! k) - (tc_left (arr ! k) + tc_extraLeft (arr ! k)),
                   mtw + tc_getWidth (arr ! k), arr[k := c']))"
    unfolding c'_def by (rule pass1_step_Some [OF k])
  have mem: "tc_tickables c' = tc_tickables (arr ! k)"
    and cx: "tc_x c' = Number (x + shift + tc_left (arr ! k) + tc_extraLeft (arr ! k))"
    by (simp_all add: c'_def pass1_context_simps)
  let ?arr1 = "arr[k := c']"
  have mem1: "map tc_tickables ?arr1 = map tc_tickables arr"
    using map_tickables_update [OF klt mem] .
  have len1: "length ?arr1 = length arr" by simp
  have look1: "\<forall>s \<in> set ts. lookup_context m ?arr1 s \<noteq> None"
    using Cons.prems by (simp add: lookup_context_cong [OF len1])
  have w1: "map (width_at m ?arr1) ts = map (width_at m arr) ts"
    by (simp add: width_at_cong [OF mem1])
  have wt: "width_at m arr t = tc_getWidth (arr ! k)"
    using k by (simp add: width_at_def)
  from Cons.IH [OF look1, of "x + shift + tc_left (arr ! k) + tc_extraLeft (arr ! k)"
      "tc_getWidth (arr ! k) - (tc_left (arr ! k) + tc_extraLeft (arr ! k))"
      "mtw + tc_getWidth (arr ! k)"]
  obtain x' shift' arr' where
    run: "forEach (pass1_step rc m) ts
            (x + shift + tc_left (arr ! k) + tc_extraLeft (arr ! k),
             tc_getWidth (arr ! k) - (tc_left (arr ! k) + tc_extraLeft (arr ! k)),
             mtw + tc_getWidth (arr ! k), ?arr1) =
          (None, (x', shift', mtw + tc_getWidth (arr ! k) + sum_list (map (width_at m ?arr1) ts), arr'))"
    and sum: "x' + shift' = x + shift + tc_left (arr ! k) + tc_extraLeft (arr ! k) +
          (tc_getWidth (arr ! k) - (tc_left (arr ! k) + tc_extraLeft (arr ! k))) +
          sum_list (map (width_at m ?arr1) ts)"
    and mem': "map tc_tickables arr' = map tc_tickables ?arr1"
    and fin: "\<forall>s \<in> set ts. \<forall>j. m s = Some j \<longrightarrow> (\<exists>y. tc_x (arr' ! j) = Number y)"
    and keep: "\<forall>j. (\<exists>y. tc_x (?arr1 ! j) = Number y) \<longrightarrow> (\<exists>y. tc_x (arr' ! j) = Number y)"
    by blast
  have keep1: "\<exists>y. tc_x (?arr1 ! j) = Number y" if "\<exists>y. tc_x (arr ! j) = Number y" for j
    using that klt cx by (cases "j = k") simp_all
  have fin_t: "\<exists>y. tc_x (arr' ! k) = Number y"
    using keep klt cx by simp
  have "forEach (pass1_step rc m) (t # ts) (x, shift, mtw, arr) =
          (None, (x', shift', mtw + sum_list (map (width_at m arr) (t # ts)), arr'))"
    using step run by (simp add: w1 wt add.assoc)
  moreover have "x' + shift' = x + shift + sum_list (map (width_at m arr) (t # ts))"
    using sum by (simp add: w1 wt)
  moreover have "map tc_tickables arr' = map tc_tickables arr"
    using mem' mem1 by simp
  moreover have "\<forall>s \<in> set (t # ts). \<forall>j. m s = Some j \<longrightarrow> (\<exists>y. tc_x (arr' ! j) = Number y)"
    using fin fin_t mt by auto
  moreover have "\<forall>j. (\<exists>y. tc_x (arr ! j) = Number y) \<longrightarrow> (\<exists>y. tc_x (arr' ! j) = Number y)"
    using keep keep1 by blast
  ultimately show ?case by blast
qed

lemma pass1_forEach_None:
  "fst (forEach (pass1_step rc m) ts (x, shift, mtw, arr)) = None \<Longrightarrow>
   \<forall>t \<in> set ts. lookup_context m arr t \<noteq> None"
proof (induction ts arbitrary: x shift mtw arr)
  case Nil
  then show ?case by simp
next
  case (Cons t ts)
  show ?case
  proof (cases "lookup_context m arr t")
    case None
    with Cons.prems show ?thesis by (simp add: pass1_step_None)
  next
    case (Some k)
    let ?arr1 = "arr[k := pass1_context rc
                   (x + shift + tc_left (arr ! k) + tc_extraLeft (arr ! k)) (arr ! k)]"
    from Cons.prems have "fst (forEach (pass1_step rc m) ts
        (x + shift + tc_left (arr ! k) + tc_extraLeft (arr ! k),
         tc_getWidth (arr ! k) - (tc_left (arr ! k) + tc_extraLeft (arr ! k)),
         mtw + tc_getWidth (arr ! k), ?arr1)) = None"
      by (simp add: pass1_step_Some [OF Some])
    from Cons.IH [OF this] have "\<forall>s \<in> set ts. lookup_context m ?arr1 s \<noteq> None" .
    moreover have len1: "length ?arr1 = length arr" by simp
    ultimately have "\<forall>s \<in> set ts. lookup_context m arr s \<noteq> None"
      by (simp add: lookup_context_cong [OF len1])
    with Some show ?thesis by simp
  qed
qed

text \<open>The map of \<^verbatim>\<open>preCalculateMinTotalWidth\<close>.\<close>

lemma preFormat_widths_ok:
  assumes "\<forall>t \<in> set ts. lookup_context m arr t \<noteq> None"
  shows "\<exists>arr'. preFormat_widths m ts arr = (Inr (map (width_at m arr) ts), arr') \<and>
           map tc_tickables arr' = map tc_tickables arr \<and>
           map tc_x arr' = map tc_x arr"
  using assms
proof (induction ts arbitrary: arr)
  case Nil
  then show ?case by simp
next
  case (Cons t ts)
  from Cons.prems obtain k where k: "lookup_context m arr t = Some k" by auto
  then have klt: "k < length arr" by (simp add: lookup_context_Some)
  let ?arr1 = "arr[k := tc_preFormat (arr ! k)]"
  have mem1: "map tc_tickables ?arr1 = map tc_tickables arr"
    using klt by (simp add: map_tickables_update tc_preFormat_def)
  have x1: "map tc_x ?arr1 = map tc_x arr"
    using klt by (simp add: map_update list_update_same_conv tc_preFormat_def)
  have len1: "length ?arr1 = length arr" by simp
  have look1: "\<forall>s \<in> set ts. lookup_context m ?arr1 s \<noteq> None"
    using Cons.prems by (simp add: lookup_context_cong [OF len1])
  from Cons.IH [OF look1] obtain arr' where
    run: "preFormat_widths m ts ?arr1 = (Inr (map (width_at m ?arr1) ts), arr')"
    and mem': "map tc_tickables arr' = map tc_tickables ?arr1"
    and x': "map tc_x arr' = map tc_x ?arr1"
    by blast
  have w1: "map (width_at m ?arr1) ts = map (width_at m arr) ts"
    by (simp add: width_at_cong [OF mem1])
  have wt: "tc_getWidth (tc_preFormat (arr ! k)) = width_at m arr t"
    using k by (simp add: width_at_def tc_getWidth_def tc_preFormat_def)
  have "preFormat_widths m (t # ts) arr = (Inr (map (width_at m arr) (t # ts)), arr')"
    using k run by (simp add: w1 wt)
  with mem' mem1 x' x1 show ?case by simp
qed


lemma pass2_context_simps:
  "tc_x (pass2_context centerX a c) = js_plus (tc_x c) a"
  "tc_preFormatted (pass2_context centerX a c) = tc_preFormatted c"
  "length (tc_tickables (pass2_context centerX a c)) = length (tc_tickables c)"
  by (simp_all add: pass2_context_def centerTickables_def tc_setX_def)

lemma pass2_step_Some:
  assumes "lookup_context m arr t = Some k"
  shows "pass2_step m px centerX (p, t) (a, arr) =
           (None, (js_plus a (tickSpace px p t),
                   arr[k := pass2_context centerX (js_plus a (tickSpace px p t)) (arr ! k)]))"
  using assms by (simp add: pass2_step_def Let_def pass2_context_def)

lemma pass2_step_None:
  "lookup_context m arr t = None \<Longrightarrow>
   pass2_step m px centerX (p, t) (a, arr) = (Some TypeError, (js_plus a (tickSpace px p t), arr))"
  by (simp add: pass2_step_def Let_def)

lemma pass2_forEach_ok:
  assumes "\<forall>t \<in> set ts. lookup_context m arr t \<noteq> None"
  shows "\<exists>a' arr'. forEach (pass2_step m px centerX) (zip (p # ts) ts) (a, arr) = (None, (a', arr')) \<and>
           length arr' = length arr"
  using assms
proof (induction ts arbitrary: p a arr)
  case Nil
  then show ?case by simp
next
  case (Cons t ts)
  from Cons.prems obtain k where k: "lookup_context m arr t = Some k" by auto
  let ?a1 = "js_plus a (tickSpace px p t)"
  let ?arr1 = "arr[k := pass2_context centerX ?a1 (arr ! k)]"
  have len1: "length ?arr1 = length arr" by simp
  have look1: "\<forall>s \<in> set ts. lookup_context m ?arr1 s \<noteq> None"
    using Cons.prems by (simp add: lookup_context_cong [OF len1])
  from Cons.IH [OF look1, of t ?a1] obtain a' arr' where
    "forEach (pass2_step m px centerX) (zip (t # ts) ts) (?a1, ?arr1) = (None, (a', arr'))"
    "length arr' = length ?arr1" by blast
  then show ?case by (simp add: pass2_step_Some [OF k])
qed



lemma preFormat_pass1_ok:
  assumes tc: "tickContexts f = Some c" and ok: "contexts_ok c"
  shows "\<exists>arr'. preFormat_pass1 f rc =
            (None, f\<lparr>minTotalWidth := minWidth c, hasMinTotalWidth := True,
                      tickContexts := Some (c\<lparr>ctx_array := arr'\<rparr>)\<rparr>) \<and>
          map tc_tickables arr' = map tc_tickables (ctx_array c) \<and>
          (\<forall>t \<in> set (ctx_list c). \<forall>k. ctx_map c t = Some k \<longrightarrow>
             (\<exists>y. tc_x (arr' ! k) = Number y))"
proof -
  from ok have look: "\<forall>t \<in> set (ctx_list c). lookup_context (ctx_map c) (ctx_array c) t \<noteq> None"
    by (simp add: contexts_ok_def)
  from pass1_forEach_ok [OF look, of rc 0 0 0] obtain x' shift' arr' where
    run: "forEach (pass1_step rc (ctx_map c)) (ctx_list c) (0, 0, 0, ctx_array c) =
          (None, (x', shift', minWidth c, arr'))"
    and sum: "x' + shift' = minWidth c"
    and mem: "map tc_tickables arr' = map tc_tickables (ctx_array c)"
    and fin: "\<forall>t \<in> set (ctx_list c). \<forall>k. ctx_map c t = Some k \<longrightarrow>
             (\<exists>y. tc_x (arr' ! k) = Number y)"
    unfolding minWidth_def by auto
  have "preFormat_pass1 f rc =
            (None, f\<lparr>minTotalWidth := minWidth c, hasMinTotalWidth := True,
                      tickContexts := Some (c\<lparr>ctx_array := arr'\<rparr>)\<rparr>)"
    by (simp add: preFormat_pass1_def tc run sum)
  with mem fin show ?thesis by blast
qed

lemma preFormat_pass1_None:
  assumes tc: "tickContexts f = Some c" and ret: "fst (preFormat_pass1 f rc) = None"
  shows "contexts_ok c"
proof -
  obtain e x shift mtw arr where
    run: "forEach (pass1_step rc (ctx_map c)) (ctx_list c) (0, 0, 0, ctx_array c) =
          (e, (x, shift, mtw, arr))"
    by (metis prod_cases3 surj_pair)
  with ret tc have "e = None" by (cases e) (simp_all add: preFormat_pass1_def)
  with run have "fst (forEach (pass1_step rc (ctx_map c)) (ctx_list c) (0, 0, 0, ctx_array c)) = None"
    by simp
  from pass1_forEach_None [OF this] show ?thesis by (simp add: contexts_ok_def)
qed

lemma preFormat_pass1_null:
  "tickContexts f = None \<Longrightarrow> preFormat_pass1 f rc = (Some TypeError, f)"
  by (simp add: preFormat_pass1_def)

lemma preFormat_pass1_flag:
  "fst (preFormat_pass1 f rc) \<noteq> None \<Longrightarrow>
   hasMinTotalWidth (snd (preFormat_pass1 f rc)) = hasMinTotalWidth f"
  by (auto simp: preFormat_pass1_def split: option.splits prod.splits)

lemma preFormat_pass2_ok:
  assumes tc: "tickContexts f = Some c" and ok: "contexts_ok c"
  shows "\<exists>arr'. preFormat_pass2 f jw = (None, f\<lparr>tickContexts := Some (c\<lparr>ctx_array := arr'\<rparr>)\<rparr>) \<and>
           length arr' = length (ctx_array c)"
proof -
  from ok have look: "\<forall>t \<in> set (ctx_list c). lookup_context (ctx_map c) (ctx_array c) t \<noteq> None"
    by (simp add: contexts_ok_def)
  from pass2_forEach_ok [OF look] obtain a' arr' where
    "forEach (pass2_step (ctx_map c) (leftoverPxPerTick f (resolutionMultiplier c) jw) (jw / 2))
       (zip (0 # ctx_list c) (ctx_list c)) (Number 0, ctx_array c) = (None, (a', arr'))"
    "length arr' = length (ctx_array c)" by blast
  then have "preFormat_pass2 f jw = (None, f\<lparr>tickContexts := Some (c\<lparr>ctx_array := arr'\<rparr>)\<rparr>) \<and>
           length arr' = length (ctx_array c)"
    by (simp add: preFormat_pass2_def tc)
  then show ?thesis by blast
qed

lemma contexts_ok_array:
  "contexts_ok c \<Longrightarrow> length arr = length (ctx_array c) \<Longrightarrow> contexts_ok (c\<lparr>ctx_array := arr\<rparr>)"
  by (simp add: contexts_ok_def lookup_context_cong [of arr "ctx_array c"])

lemma preFormat_ok:
  assumes tc: "tickContexts f = Some c" and ok: "contexts_ok c"
  shows "\<exists>arr'. preFormat f jw rc =
            (None, f\<lparr>minTotalWidth := minWidth c, hasMinTotalWidth := True,
                      tickContexts := Some (c\<lparr>ctx_array := arr'\<rparr>)\<rparr>) \<and>
           length arr' = length (ctx_array c)"
proof -
  from preFormat_pass1_ok [OF tc ok, of rc] obtain arr1 where
    p1: "preFormat_pass1 f rc =
            (None, f\<lparr>minTotalWidth := minWidth c, hasMinTotalWidth := True,
                      tickContexts := Some (c\<lparr>ctx_array := arr1\<rparr>)\<rparr>)"
    and mem: "map tc_tickables arr1 = map tc_tickables (ctx_array c)"
    by blast
  let ?f1 = "f\<lparr>minTotalWidth := minWidth c, hasMinTotalWidth := True,
                      tickContexts := Some (c\<lparr>ctx_array := arr1\<rparr>)\<rparr>"
  from mem have len1: "length arr1 = length (ctx_array c)" by (rule map_eq_imp_length_eq)
  show ?thesis
  proof (cases "jw > 0")
    case False
    with p1 have "preFormat f jw rc = (None, ?f1)" by (simp add: preFormat_def)
    with len1 show ?thesis by blast
  next
    case True
    have tc1: "tickContexts ?f1 = Some (c\<lparr>ctx_array := arr1\<rparr>)" by simp
    from preFormat_pass2_ok [OF tc1 contexts_ok_array [OF ok len1], of jw] obtain arr2 where
      "preFormat_pass2 ?f1 jw = (None, ?f1\<lparr>tickContexts := Some (c\<lparr>ctx_array := arr1, ctx_array := arr2\<rparr>)\<rparr>)"
      "length arr2 = length arr1" by auto
    with p1 True len1 have "preFormat f jw rc =
            (None, f\<lparr>minTotalWidth := minWidth c, hasMinTotalWidth := True,
                      tickContexts := Some (c\<lparr>ctx_array := arr2\<rparr>)\<rparr>) \<and>
           length arr2 = length (ctx_array c)"
      by (simp add: preFormat_def)
    then show ?thesis by blast
  qed
qed


lemma preCalculateMinTotalWidth_ok:
  assumes tc: "tickContexts f = Some c" and ok: "contexts_ok c" and nc: "\<not> hasMinTotalWidth f"
  shows "\<exists>arr'. preCalculateMinTotalWidth f vs =
            (Inr (minWidth c),
             f\<lparr>tickContexts := Some (c\<lparr>ctx_array := arr'\<rparr>), minTotalWidth := minWidth c,
               hasMinTotalWidth := True\<rparr>) \<and>
           map tc_tickables arr' = map tc_tickables (ctx_array c) \<and>
           map tc_x arr' = map tc_x (ctx_array c)"
proof -
  from ok have look: "\<forall>t \<in> set (ctx_list c). lookup_context (ctx_map c) (ctx_array c) t \<noteq> None"
    by (simp add: contexts_ok_def)
  from preFormat_widths_ok [OF look] obtain arr' where
    run: "preFormat_widths (ctx_map c) (ctx_list c) (ctx_array c) =
          (Inr (map (width_at (ctx_map c) (ctx_array c)) (ctx_list c)), arr')"
    and mem: "map tc_tickables arr' = map tc_tickables (ctx_array c)"
    and xs: "map tc_x arr' = map tc_x (ctx_array c)"
    by blast
  have "preCalculateMinTotalWidth f vs =
            (Inr (minWidth c),
             f\<lparr>tickContexts := Some (c\<lparr>ctx_array := arr'\<rparr>), minTotalWidth := minWidth c,
               hasMinTotalWidth := True\<rparr>)"
    by (simp add: preCalculateMinTotalWidth_def tc nc run foldl_plus_sum_list minWidth_def)
  with mem xs show ?thesis by blast
qed




lemma tickSpaces_Number: "tickSpaces (Number q) p ts = map Number (increments q p ts)"
  by (induction ts arbitrary: p) (simp_all add: tickSpace_def)

lemma length_increments [simp]: "length (increments q p ts) = length ts"
  by (induction ts arbitrary: p) simp_all

lemma sum_increments: "sum_list (increments q p ts) = real_of_int (last (p # ts) - p) * q"
proof (induction ts arbitrary: p)
  case Nil
  then show ?case by simp
next
  case (Cons t ts)
  have "sum_list (increments q p (t # ts)) =
        real_of_int (t - p) * q + real_of_int (last (t # ts) - t) * q"
    by (simp add: Cons.IH)
  also have "\<dots> = real_of_int (last (t # ts) - p) * q"
    by (simp add: algebra_simps)
  finally show ?case by simp
qed

lemma increments_nonneg:
  assumes "sorted_wrt (<) ts" and "\<forall>t \<in> set ts. p \<le> t" and "0 \<le> q"
  shows "\<forall>i \<in> set (increments q p ts). 0 \<le> i"
  using assms
proof (induction ts arbitrary: p)
  case Nil
  then show ?case by simp
next
  case (Cons t ts)
  from Cons.prems(1) have s: "sorted_wrt (<) ts" and le: "\<forall>s \<in> set ts. t \<le> s" by auto
  from Cons.prems(2) have "p \<le> t" by simp
  with Cons.prems(3) have "0 \<le> real_of_int (t - p) * q" by simp
  with Cons.IH [OF s le Cons.prems(3)] show ?case by simp
qed

lemma pass2_forEach_positions:
  assumes "\<forall>t \<in> set ts. lookup_context m arr t \<noteq> None"
    and "distinct ts" and "inj_on m (set ts)"
  shows "\<exists>arr'. forEach (pass2_step m (Number q) centerX) (zip (p # ts) ts) (Number a, arr) =
                   (None, (Number (a + sum_list (increments q p ts)), arr')) \<and>
           length arr' = length arr \<and>
           (\<forall>n < length ts. \<forall>k. m (ts ! n) = Some k \<longrightarrow>
              tc_x (arr' ! k) =
                js_plus (tc_x (arr ! k)) (Number (a + sum_list (take (Suc n) (increments q p ts))))) \<and>
           (\<forall>k. (\<forall>t \<in> set ts. m t \<noteq> Some k) \<longrightarrow> arr' ! k = arr ! k)"
  using assms
proof (induction ts arbitrary: p a arr)
  case Nil
  then show ?case by simp
next
  case (Cons t ts)
  from Cons.prems(1) obtain k where k: "lookup_context m arr t = Some k" by auto
  then have klt: "k < length arr" and mt: "m t = Some k" by (simp_all add: lookup_context_Some)
  define a1 where "a1 = a + real_of_int (t - p) * q"
  define arr1 where "arr1 = arr[k := pass2_context centerX (Number a1) (arr ! k)]"
  have step: "pass2_step m (Number q) centerX (p, t) (Number a, arr) = (None, (Number a1, arr1))"
    by (simp add: pass2_step_Some [OF k] tickSpace_def a1_def arr1_def)
  have len1: "length arr1 = length arr" by (simp add: arr1_def)
  have look1: "\<forall>s \<in> set ts. lookup_context m arr1 s \<noteq> None"
    using Cons.prems(1) by (simp add: lookup_context_cong [OF len1])
  from Cons.prems(2) have dist: "distinct ts" and tnot: "t \<notin> set ts" by simp_all
  from Cons.prems(3) have inj: "inj_on m (set ts)" by (simp add: inj_on_def)
  have other: "m s \<noteq> Some k" if "s \<in> set ts" for s
  proof
    assume "m s = Some k"
    with mt have "m s = m t" by simp
    with Cons.prems(3) that have "s = t" by (simp add: inj_on_def)
    with that tnot show False by simp
  qed
  from Cons.IH [OF look1 dist inj, of t a1] obtain arr' where
    run: "forEach (pass2_step m (Number q) centerX) (zip (t # ts) ts) (Number a1, arr1) =
            (None, (Number (a1 + sum_list (increments q t ts)), arr'))"
    and len': "length arr' = length arr1"
    and pos: "\<forall>n < length ts. \<forall>j. m (ts ! n) = Some j \<longrightarrow>
              tc_x (arr' ! j) =
                js_plus (tc_x (arr1 ! j)) (Number (a1 + sum_list (take (Suc n) (increments q t ts))))"
    and same: "\<forall>j. (\<forall>s \<in> set ts. m s \<noteq> Some j) \<longrightarrow> arr' ! j = arr1 ! j"
    by blast
  have r1: "forEach (pass2_step m (Number q) centerX) (zip (p # t # ts) (t # ts)) (Number a, arr) =
              (None, (Number (a + sum_list (increments q p (t # ts))), arr'))"
    using step run by (simp add: a1_def add.assoc)
  have r2: "length arr' = length arr" using len' len1 by simp
  have r3: "tc_x (arr' ! j) =
      js_plus (tc_x (arr ! j)) (Number (a + sum_list (take (Suc n) (increments q p (t # ts)))))"
    if n: "n < length (t # ts)" and j: "m ((t # ts) ! n) = Some j" for n j
  proof (cases n)
    case 0
    with j mt have jk: "j = k" by simp
    from other same have "arr' ! k = arr1 ! k" by blast
    then have "tc_x (arr' ! k) = js_plus (tc_x (arr ! k)) (Number a1)"
      using klt by (simp add: arr1_def pass2_context_simps)
    with 0 jk show ?thesis by (simp add: a1_def)
  next
    case (Suc n')
    with n j have n': "n' < length ts" and j': "m (ts ! n') = Some j" by simp_all
    from n' have "ts ! n' \<in> set ts" by simp
    from other [OF this] j' have "j \<noteq> k" by auto
    then have "arr1 ! j = arr ! j" by (simp add: arr1_def)
    with pos n' j' have "tc_x (arr' ! j) =
        js_plus (tc_x (arr ! j)) (Number (a1 + sum_list (take (Suc n') (increments q t ts))))"
      by simp
    with Suc show ?thesis by (simp add: a1_def add.assoc)
  qed
  have r4: "arr' ! j = arr ! j" if "\<forall>s \<in> set (t # ts). m s \<noteq> Some j" for j
  proof -
    from that mt have "j \<noteq> k" by auto
    then have "arr1 ! j = arr ! j" by (simp add: arr1_def)
    moreover from that same have "arr' ! j = arr1 ! j" by simp
    ultimately show ?thesis by simp
  qed
  from r1 r2 r3 r4 show ?case by blast
qed

lemma sum_take_Suc_ge:
  fixes xs :: "real list"
  assumes "\<forall>i \<in> set xs. 0 \<le> i" and "n < length xs"
  shows "sum_list (take n xs) \<le> sum_list (take (Suc n) xs)"
proof -
  from assms(2) have "take (Suc n) xs = take n xs @ [xs ! n]" by (rule take_Suc_conv_app_nth)
  moreover from assms have "0 \<le> xs ! n" by simp
  ultimately show ?thesis by simp
qed

text \<open>
  C1 (as the code has it). For a formatter whose tick list is strictly ascending and
  not negative, whose ticks have different contexts, and whose total ticks times the
  resolution multiplier are positive, and for a positive justification width greater
  than the minimum total width: the increments of pass 2 are finite and not negative,
  the accumulated space never decreases, every context ends at its pass-1 position plus
  the space accumulated up to its tick, and the increments add up to the left-over
  width times the last tick of the list divided by the total ticks times the
  resolution multiplier (the share of the left-over width in front of the last
  context, not the whole of it).
\<close>

theorem pass2_increments:
  assumes tc: "tickContexts f = Some c"
    and p1: "preFormat_pass1 f renderingContext = (None, f1)"
    and asc: "sorted_wrt (<) (ctx_list c)"
    and nonneg: "\<forall>t \<in> set (ctx_list c). 0 \<le> t"
    and inj: "inj_on (ctx_map c) (set (ctx_list c))"
    and pos: "0 < fraction_value (totalTicks f) * real (resolutionMultiplier c)"
    and more: "minTotalWidth f1 < justifyWidth"
    and jw: "0 < justifyWidth"
  shows "\<exists>incs c1 f2 c2.
     tickSpaces (leftoverPxPerTick f1 (resolutionMultiplier c) justifyWidth) 0 (ctx_list c) =
       map Number incs \<and>
     sum_list incs =
       remainingX f1 justifyWidth *
         (real_of_int (last (0 # ctx_list c)) /
            (fraction_value (totalTicks f) * real (resolutionMultiplier c))) \<and>
     (\<forall>i \<in> set incs. 0 \<le> i) \<and>
     (\<forall>n < length incs. sum_list (take n incs) \<le> sum_list (take (Suc n) incs)) \<and>
     tickContexts f1 = Some c1 \<and>
     preFormat f justifyWidth renderingContext = (None, f2) \<and>
     tickContexts f2 = Some c2 \<and>
     (\<forall>n < length (ctx_list c). \<forall>k. ctx_map c (ctx_list c ! n) = Some k \<longrightarrow>
        tc_x (ctx_array c2 ! k) =
          js_plus (tc_x (ctx_array c1 ! k)) (Number (sum_list (take (Suc n) incs))))"
proof -
  from p1 have "fst (preFormat_pass1 f renderingContext) = None" by simp
  from preFormat_pass1_None [OF tc this] have ok: "contexts_ok c" .
  from preFormat_pass1_ok [OF tc ok, of renderingContext] p1 obtain arr1 where
    f1: "f1 = f\<lparr>minTotalWidth := minWidth c, hasMinTotalWidth := True,
                  tickContexts := Some (c\<lparr>ctx_array := arr1\<rparr>)\<rparr>"
    and mem: "map tc_tickables arr1 = map tc_tickables (ctx_array c)"
    by auto
  from mem have len1: "length arr1 = length (ctx_array c)" by (rule map_eq_imp_length_eq)
  have tc1: "tickContexts f1 = Some (c\<lparr>ctx_array := arr1\<rparr>)" by (simp add: f1)
  define d where "d = fraction_value (totalTicks f) * real (resolutionMultiplier c)"
  define q where "q = remainingX f1 justifyWidth / d"
  define incs where "incs = increments q 0 (ctx_list c)"
  from pos have dpos: "0 < d" by (simp add: d_def)
  have tt: "totalTicks f1 = totalTicks f" by (simp add: f1)
  have px: "leftoverPxPerTick f1 (resolutionMultiplier c) justifyWidth = Number q"
    unfolding leftoverPxPerTick_def js_divide_def tt d_def [symmetric] q_def
    using dpos by simp
  from more have "0 < remainingX f1 justifyWidth" by (simp add: remainingX_def)
  with dpos have qpos: "0 \<le> q" by (simp add: q_def)
  have c1: "tickSpaces (leftoverPxPerTick f1 (resolutionMultiplier c) justifyWidth) 0 (ctx_list c) =
       map Number incs"
    by (simp add: px tickSpaces_Number incs_def)
  have c2: "sum_list incs = remainingX f1 justifyWidth * (real_of_int (last (0 # ctx_list c)) / d)"
    by (simp add: incs_def sum_increments q_def)
  have c3: "\<forall>i \<in> set incs. 0 \<le> i"
    unfolding incs_def using increments_nonneg [OF asc nonneg qpos] .
  have c4: "\<forall>n < length incs. sum_list (take n incs) \<le> sum_list (take (Suc n) incs)"
    using sum_take_Suc_ge [OF c3] by blast
  have look1: "\<forall>t \<in> set (ctx_list c). lookup_context (ctx_map c) arr1 t \<noteq> None"
    using ok by (simp add: contexts_ok_def lookup_context_cong [OF len1])
  from asc have dist: "distinct (ctx_list c)" using strict_sorted_iff by blast
  from pass2_forEach_positions [OF look1 dist inj, of q "justifyWidth / 2" 0 0] obtain arr2 where
    run: "forEach (pass2_step (ctx_map c) (Number q) (justifyWidth / 2))
            (zip (0 # ctx_list c) (ctx_list c)) (Number 0, arr1) =
          (None, (Number (0 + sum_list (increments q 0 (ctx_list c))), arr2))"
    and posn: "\<forall>n < length (ctx_list c). \<forall>k. ctx_map c (ctx_list c ! n) = Some k \<longrightarrow>
              tc_x (arr2 ! k) =
                js_plus (tc_x (arr1 ! k))
                  (Number (0 + sum_list (take (Suc n) (increments q 0 (ctx_list c)))))"
    by blast
  have "preFormat_pass2 f1 justifyWidth =
          (None, f1\<lparr>tickContexts := Some (c\<lparr>ctx_array := arr2\<rparr>)\<rparr>)"
    using run px by (simp add: preFormat_pass2_def tc1)
  with p1 jw have c6: "preFormat f justifyWidth renderingContext =
          (None, f1\<lparr>tickContexts := Some (c\<lparr>ctx_array := arr2\<rparr>)\<rparr>)"
    by (simp add: preFormat_def)
  have c7: "tickContexts (f1\<lparr>tickContexts := Some (c\<lparr>ctx_array := arr2\<rparr>)\<rparr>) =
      Some (c\<lparr>ctx_array := arr2\<rparr>)" by simp
  have c8: "\<forall>n < length (ctx_list c). \<forall>k. ctx_map c (ctx_list c ! n) = Some k \<longrightarrow>
        tc_x (ctx_array (c\<lparr>ctx_array := arr2\<rparr>) ! k) =
          js_plus (tc_x (ctx_array (c\<lparr>ctx_array := arr1\<rparr>) ! k))
            (Number (sum_list (take (Suc n) incs)))"
    using posn by (simp add: incs_def)
  from c1 c2 c3 c4 tc1 c6 c7 c8 show ?thesis unfolding d_def by blast
qed

lemma ex_quarter_sel:
  "ticks (ex_quarter w) = Fraction 4096 1" "noteWidth (ex_quarter w) = w"
  "leftPx (ex_quarter w) = 0" "extraLeftPx (ex_quarter w) = 0"
  "centerAligned (ex_quarter w) = False"
  by (simp_all add: ex_quarter_def ex_note_def)

lemma ex_formatter_built:
  "createTickContexts Formatter (Some [ex_upper, ex_lower]) = (Inr ex_contexts, ex_formatter)"
  by (simp add: createTickContexts_def createContexts_def ex_upper_def ex_lower_def ex_bar_def
      ex_quarter_sel mismatched_def incomplete_def fraction_equals_def Fraction_def
      Fraction_LCM_def Let_def context_at_def fraction_add_def addTickable_def TickContext_def
      SortAndUnique_def ex_contexts_def ex_context_def ex_formatter_def
      numeral_2_eq_2 numeral_3_eq_3)

lemma ex_formatter_sel:
  "tickContexts ex_formatter = Some ex_contexts" "hasMinTotalWidth ex_formatter = False"
  "totalTicks ex_formatter = Fraction 16384 1"
  by (simp_all add: ex_formatter_def Formatter_def)

lemma ex_contexts_sel:
  "ctx_list ex_contexts = [0, 4096, 8192, 12288]" "resolutionMultiplier ex_contexts = 1"
  "ctx_map ex_contexts = [0 \<mapsto> 0, 4096 \<mapsto> 1, 8192 \<mapsto> 2, 12288 \<mapsto> 3]"
  "ctx_array ex_contexts =
     [ex_context [ex_quarter 20, ex_quarter 10], ex_context [ex_quarter 15, ex_quarter 12],
      ex_context [ex_quarter 25, ex_quarter 10], ex_context [ex_quarter 18, ex_quarter 14]]"
  by (simp_all add: ex_contexts_def)

lemma ex_contexts_ok: "contexts_ok ex_contexts"
  by (simp add: contexts_ok_def ex_contexts_sel lookup_context_def)

lemma ex_minWidth: "minWidth ex_contexts = 78"
  by (simp add: minWidth_def width_at_def ex_contexts_sel lookup_context_def tc_getWidth_def
      ex_context_def ex_quarter_sel)


lemma ex_pass1:
  "preFormat_pass1 ex_formatter None =
     (None, ex_formatter\<lparr>minTotalWidth := 78, hasMinTotalWidth := True,
              tickContexts := Some (ex_contexts\<lparr>ctx_array := ex_laid [0, 20, 35, 60]\<rparr>)\<rparr>)"
  by (simp add: preFormat_pass1_def ex_formatter_sel ex_contexts_sel pass1_step_def
      lookup_context_def Let_def tc_preFormat_def tc_setX_def tc_getWidth_def tc_left_def
      tc_extraLeft_def ex_context_def ex_quarter_sel ex_laid_def)

lemma ex_preFormat:
  "preFormat ex_formatter 178 None =
     (None, ex_formatter\<lparr>minTotalWidth := 78, hasMinTotalWidth := True,
              tickContexts := Some (ex_contexts\<lparr>ctx_array := ex_laid [0, 45, 85, 135]\<rparr>)\<rparr>)"
  by (simp add: preFormat_def ex_pass1 preFormat_pass2_def ex_formatter_sel ex_contexts_sel
      pass2_step_def leftoverPxPerTick_def remainingX_def js_divide_def fraction_value_def
      Fraction_def tickSpace_def centerTickables_def
      lookup_context_def Let_def tc_setX_def ex_context_def ex_quarter_sel ex_laid_def)

lemma ex_clef_sel:
  "ticks ex_clef = Fraction 0 1" "noteWidth ex_clef = 10"
  "leftPx ex_clef = 0" "extraLeftPx ex_clef = 0" "centerAligned ex_clef = False"
  by (simp_all add: ex_clef_def ex_note_def)

text \<open>
  In the scenario, justified to 178 pixels, 100 pixels are left over, the increments are
  0, 25, 25 and 25, and the last context moves by 75 pixels: the quarter of the bar
  after the last tick gets no increment.
\<close>

theorem pass2_increments_counterexample:
  "createTickContexts Formatter (Some [ex_upper, ex_lower]) = (Inr ex_contexts, ex_formatter) \<and>
   preFormat_pass1 ex_formatter None = (None, ex_after_pass1) \<and>
   minTotalWidth ex_after_pass1 < 178 \<and>
   remainingX ex_after_pass1 178 = 100 \<and>
   tickSpaces (leftoverPxPerTick ex_after_pass1 (resolutionMultiplier ex_contexts) 178) 0
     (ctx_list ex_contexts) = [Number 0, Number 25, Number 25, Number 25] \<and>
   sum_list [0, 25, 25, 25 :: real] \<noteq> 100 \<and>
   preFormat ex_formatter 178 None =
     (None, ex_after_pass1\<lparr>tickContexts :=
              Some (ex_contexts\<lparr>ctx_array := ex_laid [0, 45, 85, 135]\<rparr>)\<rparr>)"
proof -
  have "tickSpaces (leftoverPxPerTick ex_after_pass1 (resolutionMultiplier ex_contexts) 178) 0
     (ctx_list ex_contexts) = [Number 0, Number 25, Number 25, Number 25]"
    by (simp add: ex_after_pass1_def ex_formatter_sel ex_contexts_sel leftoverPxPerTick_def
        remainingX_def js_divide_def fraction_value_def Fraction_def tickSpace_def)
  moreover have "remainingX ex_after_pass1 178 = 100" "minTotalWidth ex_after_pass1 < 178"
    by (simp_all add: remainingX_def ex_after_pass1_def)
  moreover have "preFormat ex_formatter 178 None =
     (None, ex_after_pass1\<lparr>tickContexts :=
              Some (ex_contexts\<lparr>ctx_array := ex_laid [0, 45, 85, 135]\<rparr>)\<rparr>)"
    by (simp add: ex_preFormat ex_after_pass1_def)
  moreover have "preFormat_pass1 ex_formatter None = (None, ex_after_pass1)"
    by (simp add: ex_pass1 ex_after_pass1_def)
  ultimately show ?thesis using ex_formatter_built by simp
qed

theorem pass2_increments_witness:
  "\<exists>incs. tickSpaces (leftoverPxPerTick ex_after_pass1 (resolutionMultiplier ex_contexts) 178) 0
            (ctx_list ex_contexts) = map Number incs \<and>
          sum_list incs = 100 * (12288 / 16384) \<and>
          sum_list incs = 75"
proof -
  have p1: "preFormat_pass1 ex_formatter None = (None, ex_after_pass1)"
    by (simp add: ex_pass1 ex_after_pass1_def)
  have asc: "sorted_wrt (<) (ctx_list ex_contexts)" by (simp add: ex_contexts_sel)
  have nonneg: "\<forall>t \<in> set (ctx_list ex_contexts). 0 \<le> t" by (simp add: ex_contexts_sel)
  have inj: "inj_on (ctx_map ex_contexts) (set (ctx_list ex_contexts))"
    by (simp add: ex_contexts_sel)
  have pos: "0 < fraction_value (totalTicks ex_formatter) * real (resolutionMultiplier ex_contexts)"
    by (simp add: ex_formatter_sel ex_contexts_sel fraction_value_def Fraction_def)
  have more: "minTotalWidth ex_after_pass1 < 178" by (simp add: ex_after_pass1_def)
  from pass2_increments [OF ex_formatter_sel(1) p1 asc nonneg inj pos more]
  obtain incs where
    "tickSpaces (leftoverPxPerTick ex_after_pass1 (resolutionMultiplier ex_contexts) 178) 0
       (ctx_list ex_contexts) = map Number incs"
    "sum_list incs = remainingX ex_after_pass1 178 *
       (real_of_int (last (0 # ctx_list ex_contexts)) /
          (fraction_value (totalTicks ex_formatter) * real (resolutionMultiplier ex_contexts)))"
    by auto
  moreover have "remainingX ex_after_pass1 178 = 100"
    by (simp add: remainingX_def ex_after_pass1_def)
  ultimately show ?thesis
    by (auto simp: ex_formatter_sel ex_contexts_sel fraction_value_def Fraction_def)
qed

lemma ex_clef_built:
  "createTickContexts Formatter (Some [ex_clef_voice]) =
     (Inr (ex_clef_contexts [ex_context [ex_clef]]), ex_clef_formatter)"
  by (simp add: createTickContexts_def createContexts_def ex_clef_voice_def ex_bar_def
      ex_clef_sel mismatched_def incomplete_def fraction_equals_def Fraction_def
      Fraction_LCM_def Let_def context_at_def fraction_add_def addTickable_def TickContext_def
      SortAndUnique_def ex_clef_contexts_def ex_context_def ex_clef_formatter_def)



section \<open>Properties of the minimum-width cache\<close>

lemma createTickContexts_flag:
  "hasMinTotalWidth (snd (createTickContexts f vs)) = hasMinTotalWidth f"
  by (auto simp: createTickContexts_def split: sum.splits option.splits list.splits)

lemma createModifierContexts_flag:
  "hasMinTotalWidth (snd (createModifierContexts f vs)) = hasMinTotalWidth f"
  by (auto simp: createModifierContexts_def split: sum.splits)

lemma createModifierContexts_tickContexts:
  "tickContexts (snd (createModifierContexts f vs)) = tickContexts f"
  by (auto simp: createModifierContexts_def split: sum.splits)

lemma postFormat_flag: "hasMinTotalWidth (snd (postFormat f)) = hasMinTotalWidth f"
  by (auto simp: postFormat_def split: prod.splits option.splits)

lemma joinVoices_flag:
  "hasMinTotalWidth (snd (joinVoices f vs)) =
     (if fst (joinVoices f vs) = None then False else hasMinTotalWidth f)"
  by (auto simp: joinVoices_def createModifierContexts_def split: sum.splits)

lemma preCalculateMinTotalWidth_flag:
  "hasMinTotalWidth (snd (preCalculateMinTotalWidth f vs)) =
     (if thrown (fst (preCalculateMinTotalWidth f vs)) = None then True else hasMinTotalWidth f)"
proof (cases "hasMinTotalWidth f")
  case True
  then show ?thesis by (simp add: preCalculateMinTotalWidth_def thrown_def)
next
  case False
  obtain r f1 where pre: "(case tickContexts f of
                 Some contexts \<Rightarrow> (Inr contexts, f)
               | None \<Rightarrow>
                   if vs = None then (Inl BadArgument, f)
                   else createTickContexts f vs) = (r, f1)"
    by (metis surj_pair)
  have f1: "hasMinTotalWidth f1 = hasMinTotalWidth f"
  proof (cases "tickContexts f")
    case None
    with pre have "f1 = f \<or> f1 = snd (createTickContexts f vs)"
      by (auto split: if_splits)
    then show ?thesis by (auto simp: createTickContexts_flag)
  next
    case (Some c)
    with pre show ?thesis by simp
  qed
  show ?thesis
  proof (cases r)
    case (Inl e)
    with False pre f1 show ?thesis by (simp add: preCalculateMinTotalWidth_def thrown_def)
  next
    case (Inr contexts)
    obtain ws arr where w: "preFormat_widths (ctx_map contexts) (ctx_list contexts) (ctx_array contexts) = (ws, arr)"
      by (metis surj_pair)
    with False pre f1 Inr show ?thesis
      by (cases ws) (simp_all add: preCalculateMinTotalWidth_def thrown_def)
  qed
qed

lemma preFormat_flag:
  "hasMinTotalWidth (snd (preFormat f jw rc)) =
     (if fst (preFormat f jw rc) = None then True else hasMinTotalWidth f)"
proof (cases "\<exists>c. tickContexts f = Some c \<and> contexts_ok c")
  case True
  then obtain c where tc: "tickContexts f = Some c" and ok: "contexts_ok c" by blast
  from preFormat_ok [OF tc ok, of jw rc] show ?thesis by auto
next
  case False
  have fail: "fst (preFormat_pass1 f rc) \<noteq> None"
  proof (cases "tickContexts f")
    case None
    then show ?thesis by (simp add: preFormat_pass1_null)
  next
    case (Some c)
    with False have "\<not> contexts_ok c" by simp
    with preFormat_pass1_None [OF Some] show ?thesis by blast
  qed
  then obtain e f1 where p1: "preFormat_pass1 f rc = (Some e, f1)"
    by (cases "preFormat_pass1 f rc") auto
  from preFormat_pass1_flag [OF fail] p1 have "hasMinTotalWidth f1 = hasMinTotalWidth f" by simp
  with p1 show ?thesis by (simp add: preFormat_def)
qed

lemma format_layout_flag:
  "hasMinTotalWidth (fst (snd (format_layout M f vs jw opts))) =
     (if fst (format_layout M f vs jw opts) = None then True else hasMinTotalWidth f)"
proof -
  obtain e1 vs1 where a: "alignRests M vs (align_rests opts) = (e1, vs1)" by (metis surj_pair)
  show ?thesis
  proof (cases e1)
    case (Some e)
    with a show ?thesis by (simp add: format_layout_def)
  next
    case None
    obtain r f1 where c: "createTickContexts f vs1 = (r, f1)" by (metis surj_pair)
    from createTickContexts_flag [of f vs1] c
    have f1: "hasMinTotalWidth f1 = hasMinTotalWidth f" by simp
    show ?thesis
    proof (cases r)
      case (Inl e)
      with a None c f1 show ?thesis by (simp add: format_layout_def)
    next
      case (Inr contexts)
      obtain e2 f2 where p: "preFormat f1 jw (opt_context opts) = (e2, f2)" by (metis surj_pair)
      from preFormat_flag [of f1 jw "opt_context opts"] p f1
      have "hasMinTotalWidth f2 = (if e2 = None then True else hasMinTotalWidth f)" by simp
      with a None c Inr p show ?thesis by (simp add: format_layout_def)
    qed
  qed
qed

lemma format_flag:
  "hasMinTotalWidth (fst (snd (format M f vs jw opts))) =
     (if fst (format_layout M f vs jw opts) = None then True else hasMinTotalWidth f)"
proof -
  obtain e f2 vs1 where l: "format_layout M f vs jw opts = (e, f2, vs1)" by (metis prod_cases3)
  from format_layout_flag [of M f vs jw opts] l
  have f2: "hasMinTotalWidth f2 = (if e = None then True else hasMinTotalWidth f)" by simp
  show ?thesis
  proof (cases e)
    case (Some err)
    with l f2 show ?thesis by (simp add: format_def)
  next
    case None
    with l f2 postFormat_flag [of f2] show ?thesis
      by (auto simp: format_def split: prod.splits)
  qed
qed

lemma exec_flag:
  "hasMinTotalWidth (snd (exec M c f)) =
     (if invalidates c f then False
      else if computes_width M c f then True
      else hasMinTotalWidth f)"
proof (cases c)
  case (Call_alignRests vs b)
  then show ?thesis by (simp add: exec_def invalidates_def computes_width_def)
next
  case (Call_preCalculateMinTotalWidth vs)
  with preCalculateMinTotalWidth_flag [of f vs] show ?thesis
    by (auto simp: exec_def invalidates_def computes_width_def split: prod.splits)
next
  case Call_getMinTotalWidth
  then show ?thesis
    by (simp add: exec_def invalidates_def computes_width_def getMinTotalWidth_def)
next
  case (Call_createModifierContexts vs)
  with createModifierContexts_flag [of f vs] show ?thesis
    by (auto simp: exec_def invalidates_def computes_width_def split: prod.splits)
next
  case (Call_createTickContexts vs)
  with createTickContexts_flag [of f vs] show ?thesis
    by (auto simp: exec_def invalidates_def computes_width_def split: prod.splits)
next
  case (Call_preFormat jw rc)
  with preFormat_flag [of f jw rc] show ?thesis
    by (simp add: exec_def invalidates_def computes_width_def)
next
  case Call_postFormat
  with postFormat_flag [of f] show ?thesis
    by (simp add: exec_def invalidates_def computes_width_def)
next
  case (Call_joinVoices vs)
  with joinVoices_flag [of f vs] show ?thesis
    by (simp add: exec_def invalidates_def computes_width_def)
next
  case (Call_format vs jw opts)
  with format_flag [of M f vs jw opts] show ?thesis
    by (auto simp: exec_def invalidates_def computes_width_def split: prod.splits)
qed

lemma run_flag:
  "hasMinTotalWidth (run M cs f) = width_computed M cs f (hasMinTotalWidth f)"
proof (induction cs arbitrary: f)
  case Nil
  then show ?case by simp
next
  case (Cons c cs)
  show ?case by (simp add: Cons.IH exec_flag)
qed

text \<open>
  C7. After any sequence of calls on a new formatter, \<^verbatim>\<open>getMinTotalWidth\<close> raises
  \<open>NoMinTotalWidth\<close> if and only if no width computation has completed since the
  formatter was constructed or since \<^verbatim>\<open>joinVoices\<close> last invalidated the cache;
  otherwise it returns the cached minimum total width. In both cases it leaves the
  formatter as it was.
\<close>

theorem getMinTotalWidth_iff_width_computed:
  "(fst (getMinTotalWidth (run MidLine calls Formatter)) = Inl NoMinTotalWidth \<longleftrightarrow>
      \<not> width_computed MidLine calls Formatter False) \<and>
   (width_computed MidLine calls Formatter False \<longrightarrow>
      fst (getMinTotalWidth (run MidLine calls Formatter)) =
        Inr (minTotalWidth (run MidLine calls Formatter))) \<and>
   snd (getMinTotalWidth (run MidLine calls Formatter)) = run MidLine calls Formatter"
proof -
  have "hasMinTotalWidth (run MidLine calls Formatter) = width_computed MidLine calls Formatter False"
    using run_flag [of MidLine calls Formatter] by (simp add: Formatter_def)
  then show ?thesis by (simp add: getMinTotalWidth_def)
qed

lemma ex_clef_pass1:
  "preFormat_pass1 ex_clef_formatter None = (None, ex_clef_after_pass1)"
  by (simp add: preFormat_pass1_def ex_clef_formatter_def ex_clef_contexts_def pass1_step_def
      lookup_context_def Let_def tc_preFormat_def tc_setX_def tc_getWidth_def tc_left_def
      tc_extraLeft_def ex_context_def ex_clef_sel ex_clef_after_pass1_def)

lemma ex_clef_preFormat0: "preFormat ex_clef_formatter 0 None = (None, ex_clef_after_pass1)"
  by (simp add: preFormat_def ex_clef_pass1)

lemma ex_clef_join:
  "fst (joinVoices f (Some [ex_clef_voice])) = None"
  by (simp add: joinVoices_def createModifierContexts_def createContexts_def ex_clef_voice_def
      ex_bar_def mismatched_def incomplete_def fraction_equals_def Fraction_def Let_def
      split: sum.splits)

theorem getMinTotalWidth_iff_width_computed_witness:
  "width_computed ex_MidLine
     [Call_createTickContexts (Some [ex_clef_voice]), Call_preFormat 0 None] Formatter False \<and>
   fst (getMinTotalWidth (run ex_MidLine
     [Call_createTickContexts (Some [ex_clef_voice]), Call_preFormat 0 None] Formatter)) = Inr 10 \<and>
   \<not> width_computed ex_MidLine
     [Call_createTickContexts (Some [ex_clef_voice]), Call_preFormat 0 None,
      Call_joinVoices (Some [ex_clef_voice])] Formatter False \<and>
   fst (getMinTotalWidth (run ex_MidLine
     [Call_createTickContexts (Some [ex_clef_voice]), Call_preFormat 0 None,
      Call_joinVoices (Some [ex_clef_voice])] Formatter)) = Inl NoMinTotalWidth"
proof -
  let ?c1 = "[Call_createTickContexts (Some [ex_clef_voice]), Call_preFormat 0 None]"
  let ?c2 = "[Call_createTickContexts (Some [ex_clef_voice]), Call_preFormat 0 None,
      Call_joinVoices (Some [ex_clef_voice])]"
  have e1: "exec ex_MidLine (Call_createTickContexts (Some [ex_clef_voice])) Formatter =
      (None, ex_clef_formatter)"
    by (simp add: exec_def ex_clef_built thrown_def)
  have e2: "exec ex_MidLine (Call_preFormat 0 None) ex_clef_formatter = (None, ex_clef_after_pass1)"
    by (simp add: exec_def ex_clef_preFormat0)
  have w1: "width_computed ex_MidLine ?c1 Formatter False"
    by (simp add: e1 e2 invalidates_def computes_width_def ex_clef_preFormat0)
  have w2: "\<not> width_computed ex_MidLine ?c2 Formatter False"
    by (simp add: e1 e2 invalidates_def computes_width_def ex_clef_preFormat0 ex_clef_join)
  have m1: "minTotalWidth (run ex_MidLine ?c1 Formatter) = 10"
    by (simp add: e1 e2 ex_clef_after_pass1_def)
  from getMinTotalWidth_iff_width_computed [of ex_MidLine ?c1] w1 m1
  have r1: "fst (getMinTotalWidth (run ex_MidLine ?c1 Formatter)) = Inr 10" by simp
  from getMinTotalWidth_iff_width_computed [of ex_MidLine ?c2] w2
  have r2: "fst (getMinTotalWidth (run ex_MidLine ?c2 Formatter)) = Inl NoMinTotalWidth" by blast
  from w1 r1 w2 r2 show ?thesis by blast
qed

lemma joinVoices_None:
  assumes "joinVoices f vs = (None, f1)"
  shows "\<not> hasMinTotalWidth f1" and "tickContexts f1 = tickContexts f"
  using assms
  by (auto simp: joinVoices_def createModifierContexts_def split: sum.splits)

text \<open>
  C8. On a formatter on which a width computation has run, a further
  \<^verbatim>\<open>preCalculateMinTotalWidth\<close> returns the cached value and leaves the formatter,
  its contexts included, as it was; after a \<^verbatim>\<open>joinVoices\<close> that returns, the cache
  is invalid and \<^verbatim>\<open>preCalculateMinTotalWidth\<close> computes the minimum total width
  again, as the sum of the widths that the tick contexts report, whatever the cached
  value was.
\<close>

theorem joinVoices_invalidates_cache:
  assumes "hasMinTotalWidth f" and "tickContexts f = Some c" and "contexts_ok c"
  shows "preCalculateMinTotalWidth f voices2 = (Inr (minTotalWidth f), f) \<and>
         (joinVoices f voices = (None, f1) \<longrightarrow>
            \<not> hasMinTotalWidth f1 \<and>
            (\<exists>f2. preCalculateMinTotalWidth f1 voices2 = (Inr (minWidth c), f2) \<and>
                  hasMinTotalWidth f2 \<and> minTotalWidth f2 = minWidth c))"
proof
  from assms(1) show "preCalculateMinTotalWidth f voices2 = (Inr (minTotalWidth f), f)"
    by (simp add: preCalculateMinTotalWidth_def)
next
  show "joinVoices f voices = (None, f1) \<longrightarrow>
            \<not> hasMinTotalWidth f1 \<and>
            (\<exists>f2. preCalculateMinTotalWidth f1 voices2 = (Inr (minWidth c), f2) \<and>
                  hasMinTotalWidth f2 \<and> minTotalWidth f2 = minWidth c)"
  proof
    assume j: "joinVoices f voices = (None, f1)"
    note nc = joinVoices_None(1) [OF j]
    from joinVoices_None(2) [OF j] assms(2) have tc: "tickContexts f1 = Some c" by simp
    from preCalculateMinTotalWidth_ok [OF tc assms(3) nc, of voices2] obtain arr where
      "preCalculateMinTotalWidth f1 voices2 =
            (Inr (minWidth c),
             f1\<lparr>tickContexts := Some (c\<lparr>ctx_array := arr\<rparr>), minTotalWidth := minWidth c,
               hasMinTotalWidth := True\<rparr>)" by blast
    then have "\<exists>f2. preCalculateMinTotalWidth f1 voices2 = (Inr (minWidth c), f2) \<and>
                  hasMinTotalWidth f2 \<and> minTotalWidth f2 = minWidth c" by simp
    with nc show "\<not> hasMinTotalWidth f1 \<and>
            (\<exists>f2. preCalculateMinTotalWidth f1 voices2 = (Inr (minWidth c), f2) \<and>
                  hasMinTotalWidth f2 \<and> minTotalWidth f2 = minWidth c)" by simp
  qed
qed

lemma ex_clef_contexts_ok: "contexts_ok (ex_clef_contexts [ex_context [ex_clef]])"
  by (simp add: contexts_ok_def ex_clef_contexts_def lookup_context_def)

lemma ex_clef_minWidth: "minWidth (ex_clef_contexts [ex_context [ex_clef]]) = 10"
  by (simp add: minWidth_def width_at_def ex_clef_contexts_def lookup_context_def
      tc_getWidth_def ex_context_def ex_clef_sel)

lemma ex_stale_reached:
  "run ex_MidLine [Call_preCalculateMinTotalWidth (Some [ex_upper, ex_lower]),
                   Call_createTickContexts (Some [ex_clef_voice])] Formatter = ex_stale"
proof -
  have nc: "\<not> hasMinTotalWidth ex_formatter" by (simp add: ex_formatter_sel)
  from preCalculateMinTotalWidth_ok [OF ex_formatter_sel(1) ex_contexts_ok nc, of None]
  obtain arr where a: "preCalculateMinTotalWidth ex_formatter None =
      (Inr (minWidth ex_contexts),
       ex_formatter\<lparr>tickContexts := Some (ex_contexts\<lparr>ctx_array := arr\<rparr>),
          minTotalWidth := minWidth ex_contexts, hasMinTotalWidth := True\<rparr>)" by blast
  have b: "preCalculateMinTotalWidth Formatter (Some [ex_upper, ex_lower]) =
      preCalculateMinTotalWidth ex_formatter None"
    by (simp add: preCalculateMinTotalWidth_def ex_formatter_built ex_formatter_sel
        Formatter_def [THEN arg_cong, of hasMinTotalWidth] Formatter_def [THEN arg_cong, of tickContexts])
  have c: "snd (createTickContexts f (Some [ex_clef_voice])) =
      f\<lparr>totalTicks := Fraction 0 1,
        tickContexts := Some (ex_clef_contexts [ex_context [ex_clef]])\<rparr>" for f
    using ex_clef_built
    by (auto simp: createTickContexts_def ex_clef_voice_def ex_bar_def split: sum.splits)
  let ?F1 = "ex_formatter\<lparr>tickContexts := Some (ex_contexts\<lparr>ctx_array := arr\<rparr>),
          minTotalWidth := minWidth ex_contexts, hasMinTotalWidth := True\<rparr>"
  have e1: "snd (exec ex_MidLine (Call_preCalculateMinTotalWidth (Some [ex_upper, ex_lower]))
      Formatter) = ?F1"
    by (simp add: exec_def b a)
  have e2: "snd (exec ex_MidLine (Call_createTickContexts (Some [ex_clef_voice])) ?F1) =
      ?F1\<lparr>totalTicks := Fraction 0 1,
        tickContexts := Some (ex_clef_contexts [ex_context [ex_clef]])\<rparr>"
    using c [of ?F1] by (auto simp: exec_def split: prod.splits)
  have "?F1\<lparr>totalTicks := Fraction 0 1,
        tickContexts := Some (ex_clef_contexts [ex_context [ex_clef]])\<rparr> = ex_stale"
    by (simp add: ex_minWidth ex_stale_def ex_clef_formatter_def ex_formatter_def Formatter_def)
  with e1 e2 show ?thesis by simp
qed

theorem joinVoices_invalidates_cache_witness:
  "run ex_MidLine [Call_preCalculateMinTotalWidth (Some [ex_upper, ex_lower]),
                   Call_createTickContexts (Some [ex_clef_voice])] Formatter = ex_stale \<and>
   preCalculateMinTotalWidth ex_stale None = (Inr 78, ex_stale) \<and>
   (\<exists>f1 f2. joinVoices ex_stale (Some [ex_clef_voice]) = (None, f1) \<and>
            preCalculateMinTotalWidth f1 None = (Inr 10, f2))"
proof -
  have h: "hasMinTotalWidth ex_stale" by (simp add: ex_stale_def)
  have tc: "tickContexts ex_stale = Some (ex_clef_contexts [ex_context [ex_clef]])"
    by (simp add: ex_stale_def ex_clef_formatter_def)
  obtain f1 where j: "joinVoices ex_stale (Some [ex_clef_voice]) = (None, f1)"
    using ex_clef_join [of ex_stale] by (cases "joinVoices ex_stale (Some [ex_clef_voice])") simp
  from joinVoices_invalidates_cache [OF h tc ex_clef_contexts_ok, of None "Some [ex_clef_voice]" f1] j
  have "preCalculateMinTotalWidth ex_stale None = (Inr (minTotalWidth ex_stale), ex_stale)"
    and "\<exists>f2. preCalculateMinTotalWidth f1 None =
           (Inr (minWidth (ex_clef_contexts [ex_context [ex_clef]])), f2)"
    by blast+
  moreover have "minTotalWidth ex_stale = 78" by (simp add: ex_stale_def)
  ultimately show ?thesis using j ex_stale_reached by (auto simp: ex_clef_minWidth)
qed

section \<open>Properties of rest alignment\<close>


lemma alignRest_not_eligible:
  "\<not> eligible a t (notes ! i) \<Longrightarrow> alignRest M a t i notes = (None, notes)"
  by (auto simp: alignRest_def eligible_def Let_def)

lemma alignRest_eligible:
  "eligible a t (notes ! i) \<Longrightarrow>
   alignRest M a t i notes =
     (case keyProps (notes ! i) of
        [] \<Rightarrow> (Some TypeError, notes)
      | line # _ \<Rightarrow>
          if i = 0 then
            (None, notes[i := setKeyLine0 (notes ! i) (lookAhead M notes line i False)])
          else if isRest (notes ! (i - 1)) then
            (case keyProps (notes ! (i - 1)) of
               [] \<Rightarrow> (Some TypeError, notes)
             | restLine # _ \<Rightarrow> (None, notes[i := setKeyLine0 (notes ! i) restLine]))
          else
            (None, notes[i := setKeyLine0 (notes ! i)
               (lookAhead M notes (lineForRest (notes ! (i - 1))) i True)]))"
  by (auto simp: alignRest_def eligible_def Let_def)

text \<open>A step changes at most the key properties of the note at its index.\<close>

lemma alignRest_frame:
  assumes "alignRest M a t i notes = (e, notes')"
  shows "length notes' = length notes"
    and "j \<noteq> i \<Longrightarrow> notes' ! j = notes ! j"
    and "\<exists>kp. notes' ! j = (notes ! j)\<lparr>keyProps := kp\<rparr>"
proof -
  have "notes' = notes \<or> (\<exists>l. notes' = notes[i := setKeyLine0 (notes ! i) l])"
  proof (cases "eligible a t (notes ! i)")
    case False
    with assms show ?thesis by (simp add: alignRest_not_eligible)
  next
    case True
    with assms show ?thesis
      by (auto simp: alignRest_eligible split: list.splits if_splits)
  qed
  then consider "notes' = notes" | l where "notes' = notes[i := setKeyLine0 (notes ! i) l]"
    by blast
  then have all: "length notes' = length notes \<and> (j \<noteq> i \<longrightarrow> notes' ! j = notes ! j) \<and>
      (\<exists>kp. notes' ! j = (notes ! j)\<lparr>keyProps := kp\<rparr>)"
  proof cases
    case 1
    have "notes ! j = (notes ! j)\<lparr>keyProps := keyProps (notes ! j)\<rparr>" by simp
    with 1 show ?thesis by metis
  next
    case 2
    show ?thesis
    proof (cases "j = i \<and> i < length notes")
      case True
      with 2 have "notes' ! j = (notes ! j)\<lparr>keyProps := (keyProps (notes ! j))[0 := l]\<rparr>"
        by (simp add: setKeyLine0_def)
      with 2 True show ?thesis by auto
    next
      case False
      with 2 have same: "notes' ! j = notes ! j"
        by (cases "j = i") (simp_all add: list_update_beyond)
      have "notes ! j = (notes ! j)\<lparr>keyProps := keyProps (notes ! j)\<rparr>" by simp
      with same have "\<exists>kp. notes' ! j = (notes ! j)\<lparr>keyProps := kp\<rparr>" by metis
      with 2 same show ?thesis by simp
    qed
  qed
  from all show "length notes' = length notes" by simp
  from all show "j \<noteq> i \<Longrightarrow> notes' ! j = notes ! j" by simp
  from all show "\<exists>kp. notes' ! j = (notes ! j)\<lparr>keyProps := kp\<rparr>" by simp
qed

lemma alignRests_forEach_frame:
  assumes "forEach (alignRest M a t) ixs ns = (e, ns')"
  shows "length ns' = length ns"
    and "j \<notin> set ixs \<Longrightarrow> ns' ! j = ns ! j"
    and "\<exists>kp. ns' ! j = (ns ! j)\<lparr>keyProps := kp\<rparr>"
proof -
  have "length ns' = length ns \<and> (j \<notin> set ixs \<longrightarrow> ns' ! j = ns ! j) \<and>
      (\<exists>kp. ns' ! j = (ns ! j)\<lparr>keyProps := kp\<rparr>)"
    using assms
  proof (induction ixs arbitrary: ns)
    case Nil
    have "ns ! j = (ns ! j)\<lparr>keyProps := keyProps (ns ! j)\<rparr>" by simp
    with Nil show ?case by (metis forEach.simps(1) prod.inject)
  next
    case (Cons i ixs)
    obtain e1 n1 where step: "alignRest M a t i ns = (e1, n1)" by (metis surj_pair)
    note fr = alignRest_frame [OF step]
    show ?case
    proof (cases e1)
      case (Some err)
      with Cons.prems step have "ns' = n1" by simp
      with fr(1) fr(2) [of j] fr(3) [of j] show ?thesis by auto
    next
      case None
      with Cons.prems step have "forEach (alignRest M a t) ixs n1 = (e, ns')" by simp
      from Cons.IH [OF this] have ih: "length ns' = length n1"
        "j \<notin> set ixs \<longrightarrow> ns' ! j = n1 ! j"
        "\<exists>kp. ns' ! j = (n1 ! j)\<lparr>keyProps := kp\<rparr>" by simp_all
      from ih(3) fr(3) [of j] have "\<exists>kp. ns' ! j = (ns ! j)\<lparr>keyProps := kp\<rparr>"
        by auto
      with ih fr(1) fr(2) [of j] show ?thesis by auto
    qed
  qed
  then show "length ns' = length ns"
    and "j \<notin> set ixs \<Longrightarrow> ns' ! j = ns ! j"
    and "\<exists>kp. ns' ! j = (ns ! j)\<lparr>keyProps := kp\<rparr>" by simp_all
qed

lemma eligible_keyProps_update:
  "eligible a t (n\<lparr>keyProps := kp\<rparr>) = eligible a t n"
  by (simp add: eligible_def)







lemma ex_upper_b4: "toUpperCase ''b/4'' = ''B/4''"
  by code_simp

lemma ex_rest_sel:
  "isStaveNote ex_rest" "isRest ex_rest" "\<not> tuplet ex_rest" "\<not> beam ex_rest"
  "glyphPosition ex_rest = ''b/4''" "keyProps ex_rest = [3]" "\<not> shouldIgnoreTicks ex_rest"
  by (simp_all add: ex_rest_def ex_quarter_def ex_note_def)

lemma ex_tuplet_rest_sel:
  "isStaveNote ex_tuplet_rest" "isRest ex_tuplet_rest" "tuplet ex_tuplet_rest"
  "glyphPosition ex_tuplet_rest = ''b/4''" "keyProps ex_tuplet_rest = [3]"
  by (simp_all add: ex_tuplet_rest_def ex_rest_sel)

lemma ex_pitched_sel:
  "isStaveNote ex_pitched" "\<not> isRest ex_pitched" "\<not> shouldIgnoreTicks ex_pitched"
  "lineForRest ex_pitched = 5" "keyProps ex_pitched = [5]"
  by (simp_all add: ex_pitched_def ex_quarter_def ex_note_def)


lemma ex_pitched_not_eligible: "\<not> eligible a t ex_pitched"
  by (simp add: eligible_def ex_pitched_sel)

lemma ex_tuplet_rest_eligible: "eligible True t ex_tuplet_rest = t"
  by (simp add: eligible_def ex_tuplet_rest_sel ex_upper_b4)


lemma idx2: "[0..<length [a, b]] = [0, Suc 0]"
  by (simp add: upt_rec)

lemma ex_align_0:
  "alignRest M a t 0 (ex_pitched # rest) = (None, ex_pitched # rest)"
  by (rule alignRest_not_eligible) (simp add: ex_pitched_not_eligible)





lemma alignRest_tuplet:
  "tuplet (ns ! i) \<Longrightarrow> alignRest M a False i ns = (None, ns)"
  by (rule alignRest_not_eligible) (simp add: eligible_def)

lemma forEach_alignRest_tuplet:
  "forEach (alignRest M a False) ixs ns = (e, ns') \<Longrightarrow> tuplet (ns ! j) \<Longrightarrow> ns' ! j = ns ! j"
proof (induction ixs arbitrary: ns)
  case Nil
  then show ?case by simp
next
  case (Cons i ixs)
  obtain e1 n1 where step: "alignRest M a False i ns = (e1, n1)" by (metis surj_pair)
  have same: "n1 ! j = ns ! j"
  proof (cases "j = i")
    case True
    with Cons.prems(2) step show ?thesis by (simp add: alignRest_tuplet)
  next
    case False
    then show ?thesis by (rule alignRest_frame(2) [OF step])
  qed
  show ?case
  proof (cases e1)
    case (Some err)
    with Cons.prems(1) step same show ?thesis by simp
  next
    case None
    with Cons.prems(1) step have "forEach (alignRest M a False) ixs n1 = (e, ns')" by simp
    from Cons.IH [OF this] same Cons.prems(2) show ?thesis by simp
  qed
qed

lemma AlignRestsToNotes_tuplet:
  assumes "AlignRestsToNotes M ns a False = (e, ns')"
  shows "length ns' = length ns" and "tuplet (ns ! j) \<Longrightarrow> ns' ! j = ns ! j"
proof -
  from assms have run: "forEach (alignRest M a False) [0..<length ns] ns = (e, ns')"
    by (simp add: AlignRestsToNotes_def)
  from alignRests_forEach_frame(1) [OF run] show "length ns' = length ns" .
  from forEach_alignRest_tuplet [OF run] show "tuplet (ns ! j) \<Longrightarrow> ns' ! j = ns ! j" .
qed

lemma alignRests_loop_tuplet:
  "alignRests_loop M a vs = (e, vs') \<Longrightarrow> tuplet_notes_kept vs vs'"
proof (induction vs arbitrary: e vs')
  case Nil
  then show ?case by (simp add: tuplet_notes_kept_def)
next
  case (Cons v vs)
  obtain e1 n1 where al: "AlignRestsToNotes M (v_tickables v) a False = (e1, n1)"
    by (metis surj_pair)
  note kept = AlignRestsToNotes_tuplet [OF al]
  have head: "tuplet_notes_kept [v] [v\<lparr>v_tickables := n1\<rparr>]"
    using kept by (simp add: tuplet_notes_kept_def)
  have cons: "tuplet_notes_kept (v # vs) (v\<lparr>v_tickables := n1\<rparr> # ws)"
    if "tuplet_notes_kept vs ws" for ws
    using that kept by (auto simp: tuplet_notes_kept_def nth_Cons split: nat.splits)
  have refl: "tuplet_notes_kept vs vs" by (simp add: tuplet_notes_kept_def)
  show ?case
  proof (cases e1)
    case (Some err)
    with Cons.prems al have "vs' = v\<lparr>v_tickables := n1\<rparr> # vs" by simp
    with cons [OF refl] show ?thesis by simp
  next
    case None
    obtain e2 ws where rest: "alignRests_loop M a vs = (e2, ws)" by (metis surj_pair)
    with Cons.prems al None have "vs' = v\<lparr>v_tickables := n1\<rparr> # ws" by simp
    with cons [OF Cons.IH [OF rest]] show ?thesis by simp
  qed
qed

lemma alignRests_tuplet:
  assumes "alignRests M (Some vs) a = (e, voices')"
  shows "\<exists>vs'. voices' = Some vs' \<and> tuplet_notes_kept vs vs'"
proof (cases vs)
  case Nil
  with assms show ?thesis by (simp add: alignRests_def tuplet_notes_kept_def)
next
  case (Cons v rest)
  obtain e1 ws where l: "alignRests_loop M a vs = (e1, ws)" by (metis surj_pair)
  with assms Cons have "voices' = Some ws" by (simp add: alignRests_def)
  with alignRests_loop_tuplet [OF l] show ?thesis by simp
qed

lemma format_voices:
  "snd (snd (format M f voices jw opts)) = snd (alignRests M voices (align_rests opts))"
  by (auto simp: format_def format_layout_def split: prod.splits option.splits sum.splits)

lemma ex_tuplet_False:
  "AlignRestsToNotes M [ex_pitched, ex_tuplet_rest] True False =
     (None, [ex_pitched, ex_tuplet_rest])"
proof -
  have "alignRest M True False (Suc 0) [ex_pitched, ex_tuplet_rest] =
      (None, [ex_pitched, ex_tuplet_rest])"
    by (rule alignRest_tuplet) (simp add: ex_tuplet_rest_sel)
  then show ?thesis by (simp add: AlignRestsToNotes_def idx2 ex_align_0)
qed

lemma ex_tuplet_True:
  "AlignRestsToNotes M [ex_pitched, ex_tuplet_rest] True True =
     (None, [ex_pitched, ex_tuplet_rest\<lparr>keyProps := [5]\<rparr>])"
proof -
  have "eligible True True ([ex_pitched, ex_tuplet_rest] ! Suc 0)"
    by (simp add: ex_tuplet_rest_eligible)
  from alignRest_eligible [OF this, of M]
  have "alignRest M True True (Suc 0) [ex_pitched, ex_tuplet_rest] =
      (None, [ex_pitched, ex_tuplet_rest\<lparr>keyProps := [5]\<rparr>])"
    by (simp add: ex_tuplet_rest_sel ex_pitched_sel lookAhead_def setKeyLine0_def)
  then show ?thesis by (simp add: AlignRestsToNotes_def idx2 ex_align_0)
qed

text \<open>
  C10. \<^verbatim>\<open>alignRests\<close>, and \<^verbatim>\<open>format\<close> through it, call
  \<^verbatim>\<open>AlignRestsToNotes\<close> without the tuplet argument: whatever the other
  arguments are and whether the call returns or throws, every note that belongs to a
  tuplet, and so every tuplet rest, is left as it was. The static
  \<^verbatim>\<open>AlignRestsToNotes\<close> with \<^verbatim>\<open>alignTuplets\<close> set does align a tuplet rest:
  after a pitched note on line 5 the rest moves from line 3 to line 5, and without
  the argument it stays.
\<close>

theorem alignRests_leaves_tuplet_rests:
  "(alignRests MidLine (Some vs) alignAllNotes = (e, voices') \<longrightarrow>
      (\<exists>vs'. voices' = Some vs' \<and> tuplet_notes_kept vs vs')) \<and>
   (format MidLine f (Some vs) justifyWidth opts = (e2, f2, voices2) \<longrightarrow>
      (\<exists>vs2. voices2 = Some vs2 \<and> tuplet_notes_kept vs vs2)) \<and>
   AlignRestsToNotes MidLine [ex_pitched, ex_tuplet_rest] True False =
     (None, [ex_pitched, ex_tuplet_rest]) \<and>
   AlignRestsToNotes MidLine [ex_pitched, ex_tuplet_rest] True True =
     (None, [ex_pitched, ex_tuplet_rest\<lparr>keyProps := [5]\<rparr>]) \<and>
   keyProps ex_tuplet_rest = [3]"
proof (intro conjI impI)
  assume "alignRests MidLine (Some vs) alignAllNotes = (e, voices')"
  then show "\<exists>vs'. voices' = Some vs' \<and> tuplet_notes_kept vs vs'" by (rule alignRests_tuplet)
next
  assume fm: "format MidLine f (Some vs) justifyWidth opts = (e2, f2, voices2)"
  obtain e1 v1 where al: "alignRests MidLine (Some vs) (align_rests opts) = (e1, v1)"
    by (metis surj_pair)
  from format_voices [of MidLine f "Some vs" justifyWidth opts] fm al have "voices2 = v1" by simp
  with alignRests_tuplet [OF al] show "\<exists>vs2. voices2 = Some vs2 \<and> tuplet_notes_kept vs vs2"
    by simp
next
  show "AlignRestsToNotes MidLine [ex_pitched, ex_tuplet_rest] True False =
     (None, [ex_pitched, ex_tuplet_rest])" by (rule ex_tuplet_False)
next
  show "AlignRestsToNotes MidLine [ex_pitched, ex_tuplet_rest] True True =
     (None, [ex_pitched, ex_tuplet_rest\<lparr>keyProps := [5]\<rparr>])" by (rule ex_tuplet_True)
next
  show "keyProps ex_tuplet_rest = [3]" by (rule ex_tuplet_rest_sel)
qed

theorem alignRests_leaves_tuplet_rests_witness:
  "\<exists>e vs'. alignRests ex_MidLine (Some [ex_bar [ex_pitched, ex_tuplet_rest, ex_rest]]) True =
             (e, Some vs') \<and>
           v_tickables (vs' ! 0) ! 1 = ex_tuplet_rest \<and>
           length (v_tickables (vs' ! 0)) = 3"
proof -
  let ?vs = "[ex_bar [ex_pitched, ex_tuplet_rest, ex_rest]]"
  obtain e voices' where al: "alignRests ex_MidLine (Some ?vs) True = (e, voices')"
    by (metis surj_pair)
  with alignRests_leaves_tuplet_rests [of ex_MidLine ?vs True e voices']
  obtain vs' where v: "voices' = Some vs'" and k: "tuplet_notes_kept ?vs vs'" by blast
  have t: "tuplet (v_tickables (?vs ! 0) ! 1)" by (simp add: ex_bar_def ex_tuplet_rest_sel)
  have l: "length (v_tickables (?vs ! 0)) = 3" by (simp add: ex_bar_def)
  from k t l have "v_tickables (vs' ! 0) ! 1 = v_tickables (?vs ! 0) ! 1"
    and "length (v_tickables (vs' ! 0)) = 3"
    unfolding tuplet_notes_kept_def by auto
  then have "v_tickables (vs' ! 0) ! 1 = ex_tuplet_rest \<and> length (v_tickables (vs' ! 0)) = 3"
    by (simp add: ex_bar_def)
  with al v show ?thesis by blast
qed

end
